theory Spec2Isabelle
  imports Complex_Main "HOL-Library.Word" "HOL-Library.Signed_Division"
begin

section \<open>Particle swarm optimizer (pkg/swarm/swarm.go)\<close>

text \<open>
  Conventions of the embedding.
  \<^item> A \<^verbatim>\<open>float64\<close> is a \<^typ>\<open>real\<close>: arithmetic is exact, and NaN, the infinities and the
    negative zero do not exist. \<^verbatim>\<open>math.MaxFloat64\<close> is the real number \<open>(2 - 1/2^52) * 2^1023\<close>.
  \<^item> A \<^verbatim>\<open>uint\<close> is a \<^typ>\<open>64 word\<close> (the 64-bit platforms); \<^verbatim>\<open>int(x)\<close> reads it as two's
    complement (\<^const>\<open>sint\<close>). Loop indices and the step counters of StepUntil are natural
    numbers: they start at 0 or 1 and only grow.
  \<^item> A panic is a value \<open>Inl e\<close> of the result type \<open>error + 'a\<close>; a method on the optimizer
    takes the handle (\<open>None\<close> is the nil pointer) and returns the handle of the updated
    optimizer.
  \<^item> An allocation whose length fits in an \<^verbatim>\<open>int\<close> succeeds. The log output of \<^verbatim>\<open>Verbose\<close> is
    not part of the state.
\<close>

subsection \<open>Range\<close>

text \<open>\<^verbatim>\<open>type Range [2]float64\<close>: \<open>r[0]\<close> is \<^term>\<open>fst r\<close>, \<open>r[1]\<close> is \<^term>\<open>snd r\<close>.\<close>

type_synonym Range = "real \<times> real"

definition Contains :: "Range \<Rightarrow> real \<Rightarrow> bool" where
  "Contains r x =
     (if fst r = 0 \<and> snd r = 0 then True
      else if x < fst r \<or> snd r < x then False
      else True)"

definition Clip :: "Range \<Rightarrow> real \<Rightarrow> real" where
  "Clip r x =
     (if fst r = 0 \<and> snd r = 0 then x
      else if x < fst r then fst r
      else if snd r < x then snd r
      else x)"

subsection \<open>Panics, slices and loops\<close>

datatype error =
    ErrInvalidShape   \<comment> \<open>the error value \<^verbatim>\<open>New\<close> returns\<close>
  | NilDereference    \<comment> \<open>panic: invalid memory address or nil pointer dereference\<close>
  | IndexOutOfRange   \<comment> \<open>panic: index out of range\<close>
  | DivideByZero      \<comment> \<open>panic: integer divide by zero\<close>
  | LenOutOfRange     \<comment> \<open>panic: makeslice: len out of range, makechan: size out of range\<close>
  | Deadlock          \<comment> \<open>fatal error: all goroutines are asleep\<close>

text \<open>Sequencing: a panic stops what follows.\<close>

definition seq :: "error + 'a \<Rightarrow> ('a \<Rightarrow> error + 'b) \<Rightarrow> error + 'b" where
  "seq m f = (case m of Inl e \<Rightarrow> Inl e | Inr x \<Rightarrow> f x)"

text \<open>A \<^verbatim>\<open>for\<close> loop over the given indices (or elements), in order, threading the state.\<close>

primrec forEach :: "'i list \<Rightarrow> ('i \<Rightarrow> 's \<Rightarrow> error + 's) \<Rightarrow> 's \<Rightarrow> error + 's" where
  "forEach [] body s = Inr s"
| "forEach (i # rest) body s =
     (case body i s of Inl e \<Rightarrow> Inl e | Inr s' \<Rightarrow> forEach rest body s')"

text \<open>\<^verbatim>\<open>xs[i]\<close> read and written, with the bounds check of the runtime.\<close>

definition getAt :: "'a list \<Rightarrow> nat \<Rightarrow> error + 'a" where
  "getAt xs i = (if i < length xs then Inr (xs ! i) else Inl IndexOutOfRange)"

definition getAt_int :: "'a list \<Rightarrow> int \<Rightarrow> error + 'a" where
  "getAt_int xs i = (if 0 \<le> i \<and> nat i < length xs then Inr (xs ! nat i) else Inl IndexOutOfRange)"

definition setAt :: "'a list \<Rightarrow> nat \<Rightarrow> 'a \<Rightarrow> error + 'a list" where
  "setAt xs i v = (if i < length xs then Inr (xs[i := v]) else Inl IndexOutOfRange)"

text \<open>The builtin \<^verbatim>\<open>copy(dst, src)\<close>: the first \<open>min(len(dst), len(src))\<close> elements.\<close>

fun copy :: "'a list \<Rightarrow> 'a list \<Rightarrow> 'a list" where
  "copy [] src = []"
| "copy (d # dst) [] = d # dst"
| "copy (d # dst) (s # src) = s # copy dst src"

subsection \<open>Vector helpers\<close>

text \<open>\<^verbatim>\<open>scale\<close>: each element of a vector times a scalar.\<close>

definition scale :: "real list \<Rightarrow> real \<Rightarrow> real list" where
  "scale v s = map (\<lambda>vi. vi * s) v"

text \<open>\<^verbatim>\<open>sub\<close>: \<open>u - v\<close> over the indices of \<open>u\<close>; \<open>v[i]\<close> panics where \<open>v\<close> is shorter.\<close>

fun sub :: "real list \<Rightarrow> real list \<Rightarrow> error + real list" where
  "sub [] v = Inr []"
| "sub (ui # u) [] = Inl IndexOutOfRange"
| "sub (ui # u) (vi # v) =
     (case sub u v of Inl e \<Rightarrow> Inl e | Inr rest \<Rightarrow> Inr ((ui - vi) # rest))"

text \<open>The inner loop of \<^verbatim>\<open>sum\<close>: \<open>result[i] += vi\<close> for every index of \<open>v\<close>.\<close>

fun addTo :: "real list \<Rightarrow> real list \<Rightarrow> error + real list" where
  "addTo result [] = Inr result"
| "addTo [] (vi # v) = Inl IndexOutOfRange"
| "addTo (ri # result) (vi # v) =
     (case addTo result v of Inl e \<Rightarrow> Inl e | Inr rest \<Rightarrow> Inr ((ri + vi) # rest))"

text \<open>\<^verbatim>\<open>sum(vs...)\<close>: the result has the length of \<open>vs[0]\<close>.\<close>

definition sum_vecs :: "real list list \<Rightarrow> error + real list" where
  "sum_vecs vs =
     (case vs of
        [] \<Rightarrow> Inl IndexOutOfRange
      | v0 # _ \<Rightarrow> forEach vs (\<lambda>v result. addTo result v) (replicate (length v0) 0))"

subsection \<open>Options and Optimizer\<close>

type_synonym uint = "64 word"

record Options =
  LocalSize :: uint
  PopulationSize :: uint
  Parallelism :: uint
  Bounds :: "Range list"
  Constraints :: "(real list \<Rightarrow> bool) list"
  Inertia :: real
  ParticleStep :: real
  LocalStep :: real
  GlobalStep :: real
  StallLimit :: uint
  Verbose :: bool
  WaitMagnitude :: real
  groupCount :: int

text \<open>
  The fields of the struct, then the part of the process the optimizer works on.
  \<^item> \<open>positions[i]\<close> and \<open>particleBestPosition[i]\<close> are slice headers: the model keeps the
    address of the backing array in the list and the arrays in \<open>cells\<close>, so that two headers
    on one array are seen. \<open>brk\<close> is the next unused address; a nil slice is an address whose
    cell is empty. The other \<open>[]float64\<close> fields are never shared inside the package and
    are held by value.
  \<^item> \<open>rand_src k\<close> is what the \<open>k\<close>-th coming call of \<^verbatim>\<open>rand.Float64()\<close> returns.
  \<^item> \<open>finish k i\<close> is when, in the \<open>k\<close>-th coming evaluation round, the worker pool
    delivers the result of particle \<open>i\<close>: the results channel is read in the order of these
    times, which the program does not control. Every particle is delivered once.
  \<^item> \<open>averageFitness\<close> is \<open>None\<close> for the NaN of \<open>0 / 0\<close>.
\<close>

type_synonym addr = nat

record Optimizer =
  fitness :: "real list \<Rightarrow> real"
  shape :: "Range list"
  options :: Options
  positions :: "addr list"
  velocities :: "real list list"
  stallCount :: "uint list"
  particleBestPosition :: "addr list"
  particleBestFitness :: "real list"
  localBestPosition :: "real list list"
  localBestFitness :: "real list"
  globalBestPosition :: "real list"
  globalBestFitness :: real
  averageFitness :: "real option"
  cells :: "addr \<Rightarrow> real list"
  brk :: addr
  rand_src :: "nat \<Rightarrow> real"
  finish :: "nat \<Rightarrow> nat \<Rightarrow> nat"

definition MaxFloat64 :: real where
  "MaxFloat64 = (2 - 1 / 2 ^ 52) * 2 ^ 1023"

text \<open>\<^verbatim>\<open>make([]float64, n)\<close> into a fresh array of the optimizer's memory.\<close>

definition alloc :: "nat \<Rightarrow> Optimizer \<Rightarrow> addr \<times> Optimizer" where
  "alloc n opt =
     (brk opt, opt\<lparr>cells := (cells opt)(brk opt := replicate n 0), brk := Suc (brk opt)\<rparr>)"

text \<open>\<^verbatim>\<open>rand.Float64()\<close>.\<close>

definition Float64 :: "Optimizer \<Rightarrow> real \<times> Optimizer" where
  "Float64 opt = (rand_src opt 0, opt\<lparr>rand_src := \<lambda>k. rand_src opt (Suc k)\<rparr>)"

text \<open>\<^verbatim>\<open>int(opt.options.PopulationSize)\<close> as a loop bound: the indices \<open>0, 1, ...\<close> below it.\<close>

definition population :: "Optimizer \<Rightarrow> nat list" where
  "population opt = [0..<nat (sint (PopulationSize (options opt)))]"

subsection \<open>Best\<close>

definition Best :: "Optimizer option \<Rightarrow> real list option" where
  "Best h = (case h of None \<Rightarrow> None | Some opt \<Rightarrow> Some (globalBestPosition opt))"


subsection \<open>Reset\<close>

text \<open>Address 0 is the nil slice: nothing is allocated there and its cell is empty.\<close>

definition nil :: addr where
  "nil = 0"

text \<open>The body of the first loop: the arrays of particle \<open>i\<close>.\<close>

definition Reset_make :: "nat \<Rightarrow> Optimizer \<Rightarrow> error + Optimizer" where
  "Reset_make i opt =
     (let d = length (shape opt);
          (p, opt) = alloc d opt
      in seq (setAt (positions opt) i p) (\<lambda>ps.
         let opt = opt\<lparr>positions := ps\<rparr> in
         seq (setAt (velocities opt) i (replicate d 0)) (\<lambda>vs.
         let opt = opt\<lparr>velocities := vs\<rparr>;
             (b, opt) = alloc d opt
         in seq (setAt (particleBestPosition opt) i b) (\<lambda>bs.
         let opt = opt\<lparr>particleBestPosition := bs\<rparr> in
         seq (setAt (particleBestFitness opt) i MaxFloat64) (\<lambda>fs.
         Inr (opt\<lparr>particleBestFitness := fs\<rparr>))))))"

text \<open>The body of the second loop: coordinate \<open>j\<close> of particle \<open>i\<close>, two draws.\<close>

definition Reset_draw :: "nat \<Rightarrow> Range \<Rightarrow> nat \<Rightarrow> Optimizer \<Rightarrow> error + Optimizer" where
  "Reset_draw j r i opt =
     (let delta = snd r - fst r in
      seq (getAt (positions opt) i) (\<lambda>p.
      let (u, opt) = Float64 opt in
      if length (cells opt p) \<le> j then Inl IndexOutOfRange
      else
        let opt = opt\<lparr>cells := (cells opt)(p := (cells opt p)[j := fst r + delta * u])\<rparr> in
        seq (getAt (velocities opt) i) (\<lambda>v.
        let (u, opt) = Float64 opt in
        if length v \<le> j then Inl IndexOutOfRange
        else Inr (opt\<lparr>velocities := (velocities opt)[i := v[j := (2 * u - 1) * delta]]\<rparr>))))"

text \<open>The body of the third loop: the best of group \<open>i\<close> starts at its first member.\<close>

definition Reset_group :: "nat \<Rightarrow> Optimizer \<Rightarrow> error + Optimizer" where
  "Reset_group i opt =
     (let idx = sint (of_nat i * LocalSize (options opt)) in
      seq (getAt_int (positions opt) idx) (\<lambda>p.
      seq (setAt (localBestPosition opt) i
             (copy (replicate (length (shape opt)) 0) (cells opt p))) (\<lambda>lbp.
      seq (setAt (localBestFitness opt) i MaxFloat64) (\<lambda>lbf.
      Inr (opt\<lparr>localBestPosition := lbp, localBestFitness := lbf\<rparr>)))))"

definition Reset :: "Optimizer option \<Rightarrow> error + Optimizer option" where
  "Reset h =
     (case h of
        None \<Rightarrow> Inr None
      | Some opt \<Rightarrow>
          let n = PopulationSize (options opt) in
          if sint n < 0 then Inl LenOutOfRange
          else
            let opt = opt\<lparr>positions := replicate (unat n) nil,
                          velocities := replicate (unat n) [],
                          stallCount := replicate (unat n) 0,
                          particleBestPosition := replicate (unat n) nil,
                          particleBestFitness := replicate (unat n) 0\<rparr>
            in
            seq (forEach (population opt) Reset_make opt) (\<lambda>opt.
            seq (forEach (enumerate 0 (shape opt))
                   (\<lambda>(j, r) opt. forEach (population opt) (Reset_draw j r) opt) opt) (\<lambda>opt.
            let opt = opt\<lparr>particleBestPosition :=
                            copy (particleBestPosition opt) (positions opt)\<rparr>;
                g = groupCount (options opt)
            in
            if g < 0 then Inl LenOutOfRange
            else
              let opt = opt\<lparr>localBestPosition := replicate (nat g) [],
                            localBestFitness := replicate (nat g) 0\<rparr>
              in
              seq (forEach [0..<nat g] Reset_group opt) (\<lambda>opt.
              seq (getAt (positions opt) 0) (\<lambda>p0.
              Inr (Some (opt\<lparr>globalBestPosition :=
                                copy (replicate (length (shape opt)) 0) (cells opt p0),
                              globalBestFitness := MaxFloat64\<rparr>)))))))"

subsection \<open>New\<close>

text \<open>
  The first three arguments are the surroundings: the random source, the finishing times
  of the workers and \<^verbatim>\<open>runtime.GOMAXPROCS(0)\<close>. The others are those of \<^verbatim>\<open>New\<close>.
\<close>

definition New ::
  "(nat \<Rightarrow> real) \<Rightarrow> (nat \<Rightarrow> nat \<Rightarrow> nat) \<Rightarrow> uint \<Rightarrow>
   (real list \<Rightarrow> real) \<Rightarrow> Range list \<Rightarrow> Options \<Rightarrow> error + Optimizer option" where
  "New rnd fin gomaxprocs fit shp opts =
     (if length shp = 0 then Inl ErrInvalidShape
      else
        let opts = (if LocalSize opts = 0 then opts\<lparr>LocalSize := 25\<rparr> else opts);
            opts = (if PopulationSize opts = 0
                    then opts\<lparr>PopulationSize := 10 * LocalSize opts * of_nat (length shp)\<rparr>
                    else opts);
            opts = opts\<lparr>groupCount := sint (PopulationSize opts div LocalSize opts)\<rparr>;
            opts = (if Parallelism opts = 0 then opts\<lparr>Parallelism := gomaxprocs\<rparr> else opts);
            opts = (if Inertia opts = 0 then opts\<lparr>Inertia := 0.95\<rparr> else opts);
            opts = (if ParticleStep opts = 0 then opts\<lparr>ParticleStep := 0.75\<rparr> else opts);
            opts = (if LocalStep opts = 0 then opts\<lparr>LocalStep := 0.5\<rparr> else opts);
            opts = (if GlobalStep opts = 0 then opts\<lparr>GlobalStep := 0.1\<rparr> else opts);
            opts = (if StallLimit opts = 0 then opts\<lparr>StallLimit := 3\<rparr> else opts);
            opts = (if WaitMagnitude opts = 0 then opts\<lparr>WaitMagnitude := 2\<rparr> else opts)
        in Reset (Some \<lparr>fitness = fit, shape = shp, options = opts,
                         positions = [], velocities = [], stallCount = [],
                         particleBestPosition = [], particleBestFitness = [],
                         localBestPosition = [], localBestFitness = [],
                         globalBestPosition = [], globalBestFitness = 0,
                         averageFitness = Some 0,
                         cells = (\<lambda>a. []), brk = Suc nil,
                         rand_src = rnd, finish = fin\<rparr>))"

subsection \<open>Evaluation: getParticleFitness and updateFitness\<close>

text \<open>The loop over \<open>Bounds\<close>: \<open>position[i]\<close> panics where the position is shorter.\<close>

fun withinBounds :: "Range list \<Rightarrow> real list \<Rightarrow> error + bool" where
  "withinBounds [] position = Inr True"
| "withinBounds (bounds # rest) [] = Inl IndexOutOfRange"
| "withinBounds (bounds # rest) (x # position) =
     (if \<not> Contains bounds x then Inr False else withinBounds rest position)"

text \<open>The result is the pair of \<open>idx\<close> and the fitness, \<open>None\<close> for the nil pointer.\<close>

definition getParticleFitness :: "Optimizer option \<Rightarrow> nat \<Rightarrow> error + nat \<times> real option" where
  "getParticleFitness h idx =
     (case h of
        None \<Rightarrow> Inr (0, None)
      | Some opt \<Rightarrow>
          seq (getAt (positions opt) idx) (\<lambda>p.
          let position = cells opt p in
          seq (withinBounds (Bounds (options opt)) position) (\<lambda>inside.
          if \<not> inside then Inr (idx, None)
          else if \<not> list_all (\<lambda>withinConstraint. withinConstraint position)
                       (Constraints (options opt))
          then Inr (idx, None)
          else Inr (idx, Some (fitness opt position)))))"

text \<open>The three updates of the bests for a recorded fitness \<open>f\<close> of particle \<open>idx\<close>.\<close>

definition betterParticle :: "real \<Rightarrow> nat \<Rightarrow> Optimizer \<Rightarrow> error + Optimizer" where
  "betterParticle f idx opt =
     seq (getAt (particleBestFitness opt) idx) (\<lambda>best.
     if f < best then
       seq (getAt (particleBestPosition opt) idx) (\<lambda>dst.
       seq (getAt (positions opt) idx) (\<lambda>src.
       Inr (opt\<lparr>particleBestFitness := (particleBestFitness opt)[idx := f],
                cells := (cells opt)(dst := copy (cells opt dst) (cells opt src))\<rparr>)))
     else Inr opt)"

definition betterLocal :: "real \<Rightarrow> nat \<Rightarrow> Optimizer \<Rightarrow> error + Optimizer" where
  "betterLocal f idx opt =
     (if groupCount (options opt) = 0 then Inl DivideByZero
      else
        let groupIdx = int idx smod groupCount (options opt) in
        seq (getAt_int (localBestFitness opt) groupIdx) (\<lambda>best.
        if f < best then
          seq (getAt_int (localBestPosition opt) groupIdx) (\<lambda>dst.
          seq (getAt (positions opt) idx) (\<lambda>src.
          Inr (opt\<lparr>localBestFitness := (localBestFitness opt)[nat groupIdx := f],
                   localBestPosition :=
                     (localBestPosition opt)[nat groupIdx := copy dst (cells opt src)]\<rparr>)))
        else Inr opt))"

definition betterGlobal :: "real \<Rightarrow> nat \<Rightarrow> Optimizer \<Rightarrow> error + Optimizer" where
  "betterGlobal f idx opt =
     (if f < globalBestFitness opt then
        seq (getAt (positions opt) idx) (\<lambda>src.
        Inr (opt\<lparr>globalBestFitness := f,
                 globalBestPosition := copy (globalBestPosition opt) (cells opt src)\<rparr>))
      else Inr opt)"

text \<open>
  One turn of the loop that retrieves the completed work, for the result of particle
  \<open>i\<close>; the state is the optimizer with the running \<open>avg\<close> and \<open>count\<close>. The workers only
  read the position of their particle, and the loop writes no position other than onto
  itself, so the result is computed when it is retrieved.
\<close>

definition retrieve ::
  "nat \<Rightarrow> Optimizer \<times> real \<times> real \<Rightarrow> error + Optimizer \<times> real \<times> real" where
  "retrieve i = (\<lambda>(opt, avg, count).
     seq (getParticleFitness (Some opt) i) (\<lambda>result.
     case snd result of
       None \<Rightarrow>
         seq (getAt (stallCount opt) (fst result)) (\<lambda>c.
         Inr (opt\<lparr>stallCount := (stallCount opt)[fst result := c + 1]\<rparr>, avg, count))
     | Some f \<Rightarrow>
         seq (betterParticle f (fst result) opt) (\<lambda>opt.
         seq (betterLocal f (fst result) opt) (\<lambda>opt.
         seq (betterGlobal f (fst result) opt) (\<lambda>opt.
         Inr (opt, avg + f, count + 1))))))"

text \<open>
  The order in which the results of the coming round arrive. With no worker at all no result
  ever arrives.
\<close>

definition arrivals :: "Optimizer \<Rightarrow> nat list" where
  "arrivals opt = sort_key (finish opt 0) (population opt)"

definition updateFitness :: "Optimizer option \<Rightarrow> error + Optimizer option" where
  "updateFitness h =
     (case h of
        None \<Rightarrow> Inr None
      | Some opt \<Rightarrow>
          if sint (Parallelism (options opt)) < 0 then Inl LenOutOfRange
          else if Parallelism (options opt) = 0 \<and> population opt \<noteq> [] then Inl Deadlock
          else
            seq (forEach (arrivals opt) retrieve (opt, 0, 0)) (\<lambda>(opt, avg, count).
            Inr (Some (opt\<lparr>averageFitness := (if count = 0 then None else Some (avg / count)),
                            finish := \<lambda>k. finish opt (Suc k)\<rparr>))))"

subsection \<open>Step\<close>

text \<open>The loop over \<open>Bounds\<close> that writes the clipped new position \<open>np\<close> into the position.\<close>

fun clipInto :: "Range list \<Rightarrow> real list \<Rightarrow> real list \<Rightarrow> error + real list" where
  "clipInto [] np position = Inr position"
| "clipInto (bounds # rest) [] position = Inl IndexOutOfRange"
| "clipInto (bounds # rest) (x # np) [] = Inl IndexOutOfRange"
| "clipInto (bounds # rest) (x # np) (p # position) =
     (case clipInto rest np position of
        Inl e \<Rightarrow> Inl e
      | Inr tail \<Rightarrow> Inr (Clip bounds x # tail))"

text \<open>The body of the loop of \<^verbatim>\<open>Step\<close>, for particle \<open>idx\<close>.\<close>

definition updateParticle :: "nat \<Rightarrow> Optimizer \<Rightarrow> error + Optimizer" where
  "updateParticle idx opt =
     (if groupCount (options opt) = 0 then Inl DivideByZero
      else
        let groupIdx = int idx smod groupCount (options opt) in
        seq (getAt (positions opt) idx) (\<lambda>ri.
        seq (getAt (particleBestPosition opt) idx) (\<lambda>pb.
        seq (sub (cells opt pb) (cells opt ri)) (\<lambda>dp.
        let (u, opt) = Float64 opt; rp = scale dp u in
        seq (getAt_int (localBestPosition opt) groupIdx) (\<lambda>lb.
        seq (sub lb (cells opt ri)) (\<lambda>dl.
        let (u, opt) = Float64 opt; rl = scale dl u in
        seq (sub (globalBestPosition opt) (cells opt ri)) (\<lambda>dg.
        let (u, opt) = Float64 opt; rg = scale dg u in
        seq (getAt (velocities opt) idx) (\<lambda>vi.
        seq (sum_vecs [scale vi (Inertia (options opt)),
                       scale rp (ParticleStep (options opt)),
                       scale rl (LocalStep (options opt)),
                       scale rg (GlobalStep (options opt))]) (\<lambda>nv.
        let opt = opt\<lparr>velocities := (velocities opt)[idx := nv]\<rparr> in
        seq (getAt (positions opt) idx) (\<lambda>p.
        seq (sum_vecs [cells opt p, nv]) (\<lambda>np.
        seq (clipInto (Bounds (options opt)) np (cells opt p)) (\<lambda>position.
        Inr (opt\<lparr>cells := (cells opt)(p := position)\<rparr>)))))))))))))"

definition Step :: "Optimizer option \<Rightarrow> error + Optimizer option" where
  "Step h =
     seq (updateFitness h) (\<lambda>h.
     case h of
       None \<Rightarrow> Inl NilDereference
     | Some opt \<Rightarrow>
         seq (forEach (population opt) updateParticle opt) (\<lambda>opt. Inr (Some opt)))"

subsection \<open>StepUntil\<close>

text \<open>
  The test that ends the loop. \<^verbatim>\<open>math.Log10(0)\<close> is \<open>-Inf\<close>, which is not above the
  wait magnitude and is below everything; HOL's \<open>log 10 0\<close> is \<open>0\<close>, so the two cases are
  written out. The counters are natural numbers: they start at 0 and 1 and only grow.
\<close>

definition waitedEnough :: "real \<Rightarrow> nat \<Rightarrow> nat \<Rightarrow> bool" where
  "waitedEnough w steps stepsSinceImprovement =
     (let waitLimit = log 10 (real steps);
          waitedFor = log 10 (real stepsSinceImprovement)
      in 0 < stepsSinceImprovement \<and> waitedFor > w \<and> (steps = 0 \<or> waitLimit - waitedFor < w))"

text \<open>
  The \<^verbatim>\<open>for\<close> loop of \<^verbatim>\<open>StepUntil\<close> (\<open>lastBest\<close> is the variable \<open>last\<close>). It has no
  bound: the result is \<open>None\<close> when it runs forever.
\<close>

partial_function (option) untilLoop ::
  "real \<Rightarrow> Optimizer \<Rightarrow> nat \<Rightarrow> real \<Rightarrow> nat \<Rightarrow> (error + nat \<times> Optimizer option) option" where
  "untilLoop minProgressRate opt steps lastBest stepsSinceImprovement =
     (case Step (Some opt) of
        Inl e \<Rightarrow> Some (Inl e)
      | Inr None \<Rightarrow> Some (Inl NilDereference)
      | Inr (Some opt) \<Rightarrow>
          if lastBest - globalBestFitness opt < minProgressRate then
            if waitedEnough (WaitMagnitude (options opt)) (steps + 1) (stepsSinceImprovement + 1)
            then Some (Inr (steps + 1, Some opt))
            else untilLoop minProgressRate opt (steps + 1) (globalBestFitness opt)
                   (stepsSinceImprovement + 1)
          else untilLoop minProgressRate opt (steps + 1) (globalBestFitness opt) 0)"

definition StepUntil ::
  "Optimizer option \<Rightarrow> real \<Rightarrow> (error + nat \<times> Optimizer option) option" where
  "StepUntil h progressRate =
     (case h of
        None \<Rightarrow> Some (Inr (0, None))
      | Some opt \<Rightarrow>
          (case Step (Some opt) of
             Inl e \<Rightarrow> Some (Inl e)
           | Inr None \<Rightarrow> Some (Inl NilDereference)
           | Inr (Some opt) \<Rightarrow>
               untilLoop \<bar>progressRate\<bar> opt 1 (globalBestFitness opt) 0))"

subsection \<open>Inputs used in the examples\<close>

text \<open>The zero value \<^verbatim>\<open>Options{}\<close>.\<close>

definition noOptions :: Options where
  "noOptions =
     \<lparr>LocalSize = 0, PopulationSize = 0, Parallelism = 0, Bounds = [], Constraints = [],
      Inertia = 0, ParticleStep = 0, LocalStep = 0, GlobalStep = 0, StallLimit = 0,
      Verbose = False, WaitMagnitude = 0, groupCount = 0\<rparr>"

text \<open>A random source that returns 0.25 at every call, and workers that finish in index order.\<close>

definition quarter :: "nat \<Rightarrow> real" where
  "quarter k = 1 / 4"

definition inOrder :: "nat \<Rightarrow> nat \<Rightarrow> nat" where
  "inOrder k i = i"

subsection \<open>The defaulting block of New in closed form\<close>

definition defaulted :: "uint \<Rightarrow> nat \<Rightarrow> Options \<Rightarrow> Options" where
  "defaulted gomaxprocs d opts =
     opts\<lparr>LocalSize := if LocalSize opts = 0 then 25 else LocalSize opts,
          PopulationSize :=
            if PopulationSize opts = 0
            then 10 * (if LocalSize opts = 0 then 25 else LocalSize opts) * of_nat d
            else PopulationSize opts,
          groupCount :=
            sint ((if PopulationSize opts = 0
                   then 10 * (if LocalSize opts = 0 then 25 else LocalSize opts) * of_nat d
                   else PopulationSize opts)
                  div (if LocalSize opts = 0 then 25 else LocalSize opts)),
          Parallelism := if Parallelism opts = 0 then gomaxprocs else Parallelism opts,
          Inertia := if Inertia opts = 0 then 0.95 else Inertia opts,
          ParticleStep := if ParticleStep opts = 0 then 0.75 else ParticleStep opts,
          LocalStep := if LocalStep opts = 0 then 0.5 else LocalStep opts,
          GlobalStep := if GlobalStep opts = 0 then 0.1 else GlobalStep opts,
          StallLimit := if StallLimit opts = 0 then 3 else StallLimit opts,
          WaitMagnitude := if WaitMagnitude opts = 0 then 2 else WaitMagnitude opts\<rparr>"

subsection \<open>Predicates used in the proofs\<close>

text \<open>A best fitness that was replaced: by a value of the fitness function, strictly lower.\<close>

definition lower :: "(real list \<Rightarrow> real) \<Rightarrow> real \<Rightarrow> real \<Rightarrow> bool" where
  "lower fit old new = (new < old \<and> new \<in> range fit)"

definition bestsOnlyLowered :: "Optimizer \<Rightarrow> Optimizer \<Rightarrow> bool" where
  "bestsOnlyLowered opt opt' =
     (fitness opt' = fitness opt \<and>
      length (particleBestFitness opt') = length (particleBestFitness opt) \<and>
      length (localBestFitness opt') = length (localBestFitness opt) \<and>
      length (localBestPosition opt') = length (localBestPosition opt) \<and>
      (\<forall>i<length (particleBestFitness opt).
         particleBestFitness opt' ! i = particleBestFitness opt ! i \<or>
         lower (fitness opt) (particleBestFitness opt ! i) (particleBestFitness opt' ! i)) \<and>
      (\<forall>g<length (localBestFitness opt).
         (localBestFitness opt' ! g = localBestFitness opt ! g \<and>
          localBestPosition opt' ! g = localBestPosition opt ! g) \<or>
         lower (fitness opt) (localBestFitness opt ! g) (localBestFitness opt' ! g)) \<and>
      ((globalBestFitness opt' = globalBestFitness opt \<and>
        globalBestPosition opt' = globalBestPosition opt) \<or>
       lower (fitness opt) (globalBestFitness opt) (globalBestFitness opt')))"

text \<open>What the loops of Reset keep.\<close>

definition kept :: "Optimizer \<Rightarrow> Optimizer \<Rightarrow> bool" where
  "kept opt opt' =
     (options opt' = options opt \<and> shape opt' = shape opt \<and>
      length (positions opt') = length (positions opt))"

text \<open>A position whose covered coordinates lie in their (well-formed, non-sentinel) Bounds.\<close>

definition clipped :: "Range list \<Rightarrow> real list \<Rightarrow> bool" where
  "clipped bs v =
     (length bs \<le> length v \<and>
      (\<forall>j<length bs. bs ! j \<noteq> (0, 0) \<longrightarrow> fst (bs ! j) \<le> snd (bs ! j) \<longrightarrow>
         fst (bs ! j) \<le> v ! j \<and> v ! j \<le> snd (bs ! j)))"

definition positionClipped :: "nat \<Rightarrow> Optimizer \<Rightarrow> bool" where
  "positionClipped i opt =
     (i < length (positions opt) \<and>
      clipped (Bounds (options opt)) (cells opt (positions opt ! i)))"

text \<open>What evaluation and the update rule keep.\<close>

definition sameSetup :: "Optimizer \<Rightarrow> Optimizer \<Rightarrow> bool" where
  "sameSetup opt opt' =
     (options opt' = options opt \<and> positions opt' = positions opt \<and>
      shape opt' = shape opt \<and> particleBestPosition opt' = particleBestPosition opt)"

text \<open>
  A particle whose position fails a Bounds check in some dimension or fails a constraint,
  and \<open>n\<close> calls of Step in a row.
\<close>

definition infeasible :: "Optimizer \<Rightarrow> nat \<Rightarrow> bool" where
  "infeasible opt idx =
     (let position = cells opt (positions opt ! idx); bounds = Bounds (options opt) in
      (\<exists>j<length bounds. j < length position \<and> \<not> Contains (bounds ! j) (position ! j)) \<or>
      (\<exists>withinConstraint\<in>set (Constraints (options opt)). \<not> withinConstraint position))"

primrec StepTimes :: "nat \<Rightarrow> Optimizer option \<Rightarrow> error + Optimizer option" where
  "StepTimes 0 h = Inr h"
| "StepTimes (Suc n) h = seq (Step h) (StepTimes n)"


subsection \<open>The loop of StepUntil, step by step\<close>

text \<open>
  The loop of StepUntil in the words of the specification. One turn: a step, then the
  stagnation counter is incremented if the global best improved by less than the threshold
  and reset to 0 otherwise. The state is the optimizer, the total number of steps and the
  stagnation counter; \<open>turns e k\<close> is \<open>k\<close> turns in a row, and \<open>stops\<close> is the test
  \<open>log10(s) > WaitMagnitude\<close> and \<open>log10(t) - log10(s) < WaitMagnitude\<close> on such a state.
\<close>

definition turn :: "real \<Rightarrow> Optimizer \<times> nat \<times> nat \<Rightarrow> error + Optimizer \<times> nat \<times> nat" where
  "turn e = (\<lambda>(opt, t, s).
     seq (Step (Some opt)) (\<lambda>h.
     case h of
       None \<Rightarrow> Inl NilDereference
     | Some opt' \<Rightarrow>
         Inr (opt', t + 1,
              if globalBestFitness opt - globalBestFitness opt' < e then s + 1 else 0)))"

primrec turns ::
  "real \<Rightarrow> nat \<Rightarrow> Optimizer \<times> nat \<times> nat \<Rightarrow> error + Optimizer \<times> nat \<times> nat" where
  "turns e 0 v = Inr v"
| "turns e (Suc k) v = seq (turn e v) (turns e k)"

definition stops :: "Optimizer \<times> nat \<times> nat \<Rightarrow> bool" where
  "stops = (\<lambda>(opt, t, s). waitedEnough (WaitMagnitude (options opt)) t s)"

text \<open>Options under which no particle is ever feasible, with a wait magnitude of 0.5.\<close>

definition stallOptions :: Options where
  "stallOptions =
     noOptions\<lparr>PopulationSize := 1, LocalSize := 1, Constraints := [\<lambda>v. False],
               WaitMagnitude := 1 / 2\<rparr>"

text \<open>
  The stagnation counter counted after each step, the first one included: \<open>bestAfter opt m\<close>
  is the global best fitness after \<open>m\<close> steps.
\<close>

definition bestAfter :: "Optimizer \<Rightarrow> nat \<Rightarrow> real" where
  "bestAfter opt m =
     (case StepTimes m (Some opt) of Inr (Some opt') \<Rightarrow> globalBestFitness opt' | _ \<Rightarrow> 0)"

primrec claimedSince :: "real \<Rightarrow> Optimizer \<Rightarrow> nat \<Rightarrow> nat" where
  "claimedSince e opt 0 = 0"
| "claimedSince e opt (Suc m) =
     (if bestAfter opt m - bestAfter opt (Suc m) < \<bar>e\<bar> then claimedSince e opt m + 1 else 0)"

section \<open>Basic facts\<close>

lemma seq_Inr: "seq m f = Inr y \<longleftrightarrow> (\<exists>x. m = Inr x \<and> f x = Inr y)"
  by (cases m) (simp_all add: seq_def)

text \<open>A property that every turn of a loop keeps holds when the loop has run.\<close>

lemma forEach_invariant:
  assumes "forEach xs body s = Inr s'" and "P s"
    and "\<And>i s s'. i \<in> set xs \<Longrightarrow> P s \<Longrightarrow> body i s = Inr s' \<Longrightarrow> P s'"
  shows "P s'"
  using assms
proof (induction xs arbitrary: s)
  case Nil
  then show ?case by simp
next
  case (Cons i rest)
  from Cons.prems(1) obtain s1 where b: "body i s = Inr s1" and r: "forEach rest body s1 = Inr s'"
    by (auto split: sum.splits)
  have "P s1" using Cons.prems(3) [of i s s1] Cons.prems(2) b by simp
  moreover have "P t'" if "k \<in> set rest" "P t" "body k t = Inr t'" for k t t'
    using Cons.prems(3) [of k t t'] that by simp
  ultimately show ?case using Cons.IH [OF r] by blast
qed

lemmas run_defs =
  New_def Reset_def population_def Let_def seq_def Reset_make_def alloc_def setAt_def nil_def
  Reset_draw_def getAt_def Float64_def Reset_group_def getAt_int_def Step_def updateFitness_def
  arrivals_def retrieve_def getParticleFitness_def betterParticle_def betterLocal_def
  betterGlobal_def updateParticle_def sum_vecs_def scale_def noOptions_def quarter_def
  inOrder_def

section \<open>Reset and New\<close>

lemma Reset_make_kept: "Reset_make i opt = Inr opt' \<Longrightarrow> kept opt opt'"
  by (auto simp: kept_def Reset_make_def seq_Inr alloc_def setAt_def Let_def
      split: if_splits prod.splits)

lemma Reset_draw_kept: "Reset_draw j r i opt = Inr opt' \<Longrightarrow> kept opt opt'"
  by (auto simp: kept_def Reset_draw_def seq_Inr Float64_def getAt_def Let_def
      split: if_splits prod.splits)

lemma Reset_group_kept: "Reset_group i opt = Inr opt' \<Longrightarrow> kept opt opt'"
  by (auto simp: kept_def Reset_group_def seq_Inr getAt_int_def setAt_def Let_def
      split: if_splits prod.splits)

text \<open>
  A Reset that returns keeps the options, leaves the global best fitness at
  \<^const>\<open>MaxFloat64\<close>, and has found a particle 0.
\<close>

lemma Reset_options:
  assumes "Reset (Some opt) = Inr (Some opt')"
  shows "options opt' = options opt \<and> globalBestFitness opt' = MaxFloat64 \<and>
         PopulationSize (options opt) \<noteq> 0"
proof -
  let ?n = "PopulationSize (options opt)"
  let ?o0 = "opt\<lparr>positions := replicate (unat ?n) nil,
                  velocities := replicate (unat ?n) [],
                  stallCount := replicate (unat ?n) 0,
                  particleBestPosition := replicate (unat ?n) nil,
                  particleBestFitness := replicate (unat ?n) 0\<rparr>"
  from assms obtain o1 o2 o3 p0 where
    l1: "forEach (population ?o0) Reset_make ?o0 = Inr o1" and
    l2: "forEach (enumerate 0 (shape o1))
           (\<lambda>(j, r) opt. forEach (population opt) (Reset_draw j r) opt) o1 = Inr o2" and
    l3: "forEach [0..<nat (groupCount (options o2))] Reset_group
           (o2\<lparr>particleBestPosition := copy (particleBestPosition o2) (positions o2),
               localBestPosition := replicate (nat (groupCount (options o2))) [],
               localBestFitness := replicate (nat (groupCount (options o2))) 0\<rparr>) = Inr o3" and
    l4: "getAt (positions o3) 0 = Inr p0" and
    l5: "opt' = o3\<lparr>globalBestPosition :=
                     copy (replicate (length (shape o3)) 0) (cells o3 p0),
                   globalBestFitness := MaxFloat64\<rparr>"
    by (auto simp: Reset_def Let_def seq_Inr split: if_splits)
  have k1: "kept ?o0 o1"
    by (rule forEach_invariant [OF l1, where P = "kept ?o0"])
      (auto simp: kept_def dest!: Reset_make_kept)
  have inner: "kept s s'" if "forEach (population s) (Reset_draw j r) s = Inr s'" for j r s s'
    by (rule forEach_invariant [OF that, where P = "kept s"])
      (auto simp: kept_def dest!: Reset_draw_kept)
  have k2: "kept o1 o2"
    by (rule forEach_invariant [OF l2, where P = "kept o1"]) (auto simp: kept_def dest!: inner)
  have k3: "kept o2 o3"
    by (rule forEach_invariant [OF l3, where P = "kept o2"])
      (auto simp: kept_def dest!: Reset_group_kept)
  have "length (positions o3) = unat ?n" using k1 k2 k3 by (simp add: kept_def)
  moreover have "0 < length (positions o3)" using l4 by (auto simp: getAt_def split: if_splits)
  ultimately have "?n \<noteq> 0" by (auto simp: unat_eq_0)
  then show ?thesis using k1 k2 k3 l5 by (simp add: kept_def)
qed

lemma default_steps:
  "(if c then (o1::Options)\<lparr>LocalSize := a\<rparr> else o1) =
     o1\<lparr>LocalSize := if c then a else LocalSize o1\<rparr>"
  "(if c then o1\<lparr>PopulationSize := a\<rparr> else o1) =
     o1\<lparr>PopulationSize := if c then a else PopulationSize o1\<rparr>"
  "(if c then o1\<lparr>Parallelism := a\<rparr> else o1) =
     o1\<lparr>Parallelism := if c then a else Parallelism o1\<rparr>"
  "(if c then o1\<lparr>Inertia := x\<rparr> else o1) = o1\<lparr>Inertia := if c then x else Inertia o1\<rparr>"
  "(if c then o1\<lparr>ParticleStep := x\<rparr> else o1) =
     o1\<lparr>ParticleStep := if c then x else ParticleStep o1\<rparr>"
  "(if c then o1\<lparr>LocalStep := x\<rparr> else o1) =
     o1\<lparr>LocalStep := if c then x else LocalStep o1\<rparr>"
  "(if c then o1\<lparr>GlobalStep := x\<rparr> else o1) =
     o1\<lparr>GlobalStep := if c then x else GlobalStep o1\<rparr>"
  "(if c then o1\<lparr>StallLimit := a\<rparr> else o1) =
     o1\<lparr>StallLimit := if c then a else StallLimit o1\<rparr>"
  "(if c then o1\<lparr>WaitMagnitude := x\<rparr> else o1) =
     o1\<lparr>WaitMagnitude := if c then x else WaitMagnitude o1\<rparr>"
  by simp_all

text \<open>New is Reset on the optimizer that holds the defaulted options.\<close>

lemma New_Reset:
  assumes "New rnd fin gomaxprocs fit shp opts = Inr (Some opt)"
  shows "\<exists>o0. Reset (Some o0) = Inr (Some opt) \<and>
              options o0 = defaulted gomaxprocs (length shp) opts"
proof (cases "length shp = 0")
  case True
  then show ?thesis using assms by (simp add: New_def)
next
  case False
  have "New rnd fin gomaxprocs fit shp opts =
        Reset (Some \<lparr>fitness = fit, shape = shp,
                      options = defaulted gomaxprocs (length shp) opts,
                      positions = [], velocities = [], stallCount = [],
                      particleBestPosition = [], particleBestFitness = [],
                      localBestPosition = [], localBestFitness = [],
                      globalBestPosition = [], globalBestFitness = 0,
                      averageFitness = Some 0,
                      cells = (\<lambda>a. []), brk = Suc nil,
                      rand_src = rnd, finish = fin\<rparr>)"
    using False unfolding New_def default_steps defaulted_def
    by (simp add: Let_def cong: if_cong)
  then show ?thesis using assms by (metis Optimizer.select_convs(3))
qed

lemma New_options:
  assumes "New rnd fin gomaxprocs fit shp opts = Inr (Some opt)"
  shows "options opt = defaulted gomaxprocs (length shp) opts"
    and "globalBestFitness opt = MaxFloat64"
    and "PopulationSize (options opt) \<noteq> 0"
  using New_Reset [OF assms] Reset_options by (metis)+

section \<open>Defaults of the options\<close>

text \<open>
  C10. For every Options value passed to New, a field set to its zero value is replaced
  by its default: LocalSize 25, PopulationSize \<open>10 * LocalSize * len(shape)\<close> (in \<open>uint\<close>
  arithmetic), Parallelism \<open>GOMAXPROCS\<close>, Inertia 0.95, ParticleStep 0.75, LocalStep 0.5,
  GlobalStep 0.1, StallLimit 3, WaitMagnitude 2. So no optimizer that New returns has a
  zero in one of these fields (for Parallelism: as \<open>GOMAXPROCS\<close> is not zero).
\<close>

theorem New_defaults:
  assumes "New rnd fin gomaxprocs fit shp opts = Inr (Some opt)"
  shows "(LocalSize opts = 0 \<longrightarrow> LocalSize (options opt) = 25) \<and>
         (PopulationSize opts = 0 \<longrightarrow>
            PopulationSize (options opt) = 10 * LocalSize (options opt) * of_nat (length shp)) \<and>
         (Parallelism opts = 0 \<longrightarrow> Parallelism (options opt) = gomaxprocs) \<and>
         (Inertia opts = 0 \<longrightarrow> Inertia (options opt) = 0.95) \<and>
         (ParticleStep opts = 0 \<longrightarrow> ParticleStep (options opt) = 0.75) \<and>
         (LocalStep opts = 0 \<longrightarrow> LocalStep (options opt) = 0.5) \<and>
         (GlobalStep opts = 0 \<longrightarrow> GlobalStep (options opt) = 0.1) \<and>
         (StallLimit opts = 0 \<longrightarrow> StallLimit (options opt) = 3) \<and>
         (WaitMagnitude opts = 0 \<longrightarrow> WaitMagnitude (options opt) = 2) \<and>
         LocalSize (options opt) \<noteq> 0 \<and> PopulationSize (options opt) \<noteq> 0 \<and>
         (gomaxprocs \<noteq> 0 \<longrightarrow> Parallelism (options opt) \<noteq> 0) \<and>
         Inertia (options opt) \<noteq> 0 \<and> ParticleStep (options opt) \<noteq> 0 \<and>
         LocalStep (options opt) \<noteq> 0 \<and> GlobalStep (options opt) \<noteq> 0 \<and>
         StallLimit (options opt) \<noteq> 0 \<and> WaitMagnitude (options opt) \<noteq> 0"
  using New_options(3) [OF assms] unfolding New_options(1) [OF assms] defaulted_def
  by simp

theorem New_defaults_witness:
  "\<exists>opt. New quarter inOrder 1 (\<lambda>v. 1) [(0, 1)] (noOptions\<lparr>PopulationSize := 1\<rparr>) =
           Inr (Some opt) \<and>
         LocalSize (options opt) = 25 \<and> Parallelism (options opt) = 1 \<and>
         Inertia (options opt) = 0.95 \<and> ParticleStep (options opt) = 0.75 \<and>
         LocalStep (options opt) = 0.5 \<and> GlobalStep (options opt) = 0.1 \<and>
         StallLimit (options opt) = 3 \<and> WaitMagnitude (options opt) = 2"
proof -
  obtain opt where
    n: "New quarter inOrder 1 (\<lambda>v. 1) [(0, 1)] (noOptions\<lparr>PopulationSize := 1\<rparr>) =
        Inr (Some opt)"
    by (simp add: run_defs)
  from New_defaults [OF n] show ?thesis using n by (simp add: noOptions_def)
qed

section \<open>Range: Contains and Clip\<close>

text \<open>
  C9. For the zero-valued Range \<open>{0,0}\<close> (the unbounded sentinel) \<open>Contains(x)\<close> is true for
  every \<open>x\<close> and \<open>Clip(x) = x\<close>. For every other Range, \<open>Contains\<close> is inclusive on both
  endpoints (true exactly when \<open>lower \<le> x \<le> upper\<close>) and \<open>Clip\<close> returns \<open>lower\<close> when
  \<open>x < lower\<close>, \<open>upper\<close> when \<open>x > upper\<close>, and \<open>x\<close> itself otherwise (the three cases
  read in this order).
\<close>

theorem Range_Contains_Clip:
  "(Contains (0, 0) x \<and> Clip (0, 0) x = x) \<and>
   (r \<noteq> (0, 0) \<longrightarrow>
      (Contains r x \<longleftrightarrow> fst r \<le> x \<and> x \<le> snd r) \<and>
      Clip r x = (if x < fst r then fst r else if x > snd r then snd r else x))"
  by (cases r) (auto simp: Contains_def Clip_def)

theorem Range_Contains_Clip_witness:
  "(Contains (0, 0) 7 \<and> Clip (0, 0) 7 = 7) \<and>
   ((1, 5) \<noteq> (0, 0 :: real) \<and> Contains (1, 5) 5 \<and> \<not> Contains (1, 5) 6 \<and>
    Clip (1, 5) 0 = 1 \<and> Clip (1, 5) 9 = 5 \<and> Clip (1, 5) 3 = 3)"
  using Range_Contains_Clip [of 7 "(1, 5)"] Range_Contains_Clip [of 5 "(1, 5)"]
    Range_Contains_Clip [of 6 "(1, 5)"] Range_Contains_Clip [of 0 "(1, 5)"]
    Range_Contains_Clip [of 9 "(1, 5)"] Range_Contains_Clip [of 3 "(1, 5)"]
  by simp


section \<open>The nil handle\<close>

text \<open>
  C5. Every public operation on a nil optimizer handle (Reset, Step, StepUntil, Best) is
  said to be a safe no-op that returns the zero value. Reset, Best and StepUntil test for
  nil and are; Step has no such test: \<^verbatim>\<open>updateFitness\<close> returns at once on nil, and the
  loop bound \<^verbatim>\<open>opt.options.PopulationSize\<close> then dereferences the nil pointer.
\<close>

theorem nil_handle_Step_panics:
  "Step None = Inl NilDereference \<and> Reset None = Inr None \<and> Best None = None \<and>
   StepUntil None progressRate = Some (Inr (0, None))"
  by (simp add: Step_def updateFitness_def seq_def Reset_def Best_def StepUntil_def)

section \<open>The number of groups\<close>

text \<open>
  C7. The resolved \<open>groupCount = PopulationSize / LocalSize\<close> is said to be at least 1 for
  every Options value, also for a PopulationSize below LocalSize. With
  \<^verbatim>\<open>Options{PopulationSize: 1}\<close> LocalSize defaults to 25, \<open>groupCount\<close> is \<open>1 / 25 = 0\<close>,
  New returns the optimizer, and the first Step panics at \<^verbatim>\<open>idx % opt.options.groupCount\<close>.
\<close>

theorem small_population_divides_by_zero:
  "\<exists>opt. New quarter inOrder 1 (\<lambda>v. 1) [(0, 1)] (noOptions\<lparr>PopulationSize := 1\<rparr>) =
           Inr (Some opt) \<and>
         LocalSize (options opt) = 25 \<and> PopulationSize (options opt) = 1 \<and>
         groupCount (options opt) = 0 \<and> Step (Some opt) = Inl DivideByZero"
  by (simp add: run_defs MaxFloat64_def)

section \<open>The update rule without Bounds\<close>

text \<open>
  C1. After evaluation the new velocity of a particle is \<open>v'\<close> (inertia, personal, group
  and global term, one random scalar per term) and its new position is said to be
  \<open>pos + v'\<close> clipped by Bounds, also when Bounds is empty or shorter than the dimension
  count. The code writes \<open>pos + v'\<close> back only inside the loop over Bounds: with the default
  (empty) Bounds the particle below has velocity \<open>-19/40\<close> after the step and its position
  is still \<open>1/4\<close>, not \<open>1/4 - 19/40\<close>.
\<close>

theorem unbounded_particle_stays:
  "\<exists>opt opt'.
     New quarter inOrder 1 (\<lambda>v. 1) [(0, 1)] (noOptions\<lparr>PopulationSize := 1, LocalSize := 1\<rparr>) =
       Inr (Some opt) \<and>
     Step (Some opt) = Inr (Some opt') \<and>
     Bounds (options opt) = [] \<and>
     map (cells opt) (positions opt) = [[1 / 4]] \<and>
     velocities opt' = [[- (19 / 40)]] \<and>
     map (cells opt') (positions opt') = [[1 / 4]]"
  by (simp add: run_defs MaxFloat64_def)

section \<open>The personal best position\<close>

text \<open>
  C8. The personal best position and fitness of a particle are said to change only when
  the particle records a strictly lower fitness, and not when its position moves in the
  update rule. Reset copies the slice headers (\<^verbatim>\<open>copy(opt.particleBestPosition, opt.positions)\<close>),
  so \<open>particleBestPosition[i]\<close> and \<open>positions[i]\<close> are one array. The particle below is
  infeasible (its constraint is always false) and records no fitness; its best fitness
  stays \<^const>\<open>MaxFloat64\<close>, and its best position goes from \<open>1/4\<close> to \<open>-9/40\<close> with the
  position.
\<close>

theorem personal_best_follows_position:
  "\<exists>opt opt'.
     New quarter inOrder 1 (\<lambda>v. 1) [(0, 1)]
       (noOptions\<lparr>PopulationSize := 1, LocalSize := 1, Bounds := [(- 100, 100)],
                  Constraints := [\<lambda>v. False]\<rparr>) = Inr (Some opt) \<and>
     Step (Some opt) = Inr (Some opt') \<and>
     getParticleFitness (Some opt) 0 = Inr (0, None) \<and>
     particleBestFitness opt = [MaxFloat64] \<and>
     particleBestFitness opt' = [MaxFloat64] \<and>
     map (cells opt) (particleBestPosition opt) = [[1 / 4]] \<and>
     map (cells opt') (particleBestPosition opt') = [[- (9 / 40)]] \<and>
     particleBestPosition opt = positions opt"
  by (simp add: run_defs MaxFloat64_def Contains_def Clip_def)

section \<open>Evaluation and aggregation\<close>

lemma lower_trans: "lower fit a b \<Longrightarrow> lower fit b c \<Longrightarrow> lower fit a c"
  by (auto simp: lower_def)

lemma bestsOnlyLowered_refl: "bestsOnlyLowered opt opt"
  by (simp add: bestsOnlyLowered_def)

lemma bestsOnlyLowered_trans:
  assumes ab: "bestsOnlyLowered a b" and bc: "bestsOnlyLowered b c"
  shows "bestsOnlyLowered a c"
proof -
  have eqs: "fitness b = fitness a" "fitness c = fitness a"
    "length (particleBestFitness b) = length (particleBestFitness a)"
    "length (particleBestFitness c) = length (particleBestFitness a)"
    "length (localBestFitness b) = length (localBestFitness a)"
    "length (localBestFitness c) = length (localBestFitness a)"
    "length (localBestPosition c) = length (localBestPosition a)"
    using ab bc by (simp_all add: bestsOnlyLowered_def)
  have p: "particleBestFitness c ! i = particleBestFitness a ! i \<or>
         lower (fitness a) (particleBestFitness a ! i) (particleBestFitness c ! i)"
    if "i < length (particleBestFitness a)" for i
  proof -
    have 1: "particleBestFitness b ! i = particleBestFitness a ! i \<or>
         lower (fitness a) (particleBestFitness a ! i) (particleBestFitness b ! i)"
      using ab that by (simp add: bestsOnlyLowered_def)
    have 2: "particleBestFitness c ! i = particleBestFitness b ! i \<or>
         lower (fitness a) (particleBestFitness b ! i) (particleBestFitness c ! i)"
      using bc that eqs by (simp add: bestsOnlyLowered_def)
    show ?thesis using 1 2 by (auto intro: lower_trans)
  qed
  have l: "(localBestFitness c ! g = localBestFitness a ! g \<and>
          localBestPosition c ! g = localBestPosition a ! g) \<or>
         lower (fitness a) (localBestFitness a ! g) (localBestFitness c ! g)"
    if "g < length (localBestFitness a)" for g
  proof -
    have 1: "(localBestFitness b ! g = localBestFitness a ! g \<and>
          localBestPosition b ! g = localBestPosition a ! g) \<or>
         lower (fitness a) (localBestFitness a ! g) (localBestFitness b ! g)"
      using ab that by (simp add: bestsOnlyLowered_def)
    have 2: "(localBestFitness c ! g = localBestFitness b ! g \<and>
          localBestPosition c ! g = localBestPosition b ! g) \<or>
         lower (fitness a) (localBestFitness b ! g) (localBestFitness c ! g)"
      using bc that eqs by (simp add: bestsOnlyLowered_def)
    show ?thesis using 1 2 by (auto intro: lower_trans)
  qed
  have 1: "(globalBestFitness b = globalBestFitness a \<and>
        globalBestPosition b = globalBestPosition a) \<or>
       lower (fitness a) (globalBestFitness a) (globalBestFitness b)"
    using ab by (simp add: bestsOnlyLowered_def)
  have 2: "(globalBestFitness c = globalBestFitness b \<and>
        globalBestPosition c = globalBestPosition b) \<or>
       lower (fitness a) (globalBestFitness b) (globalBestFitness c)"
    using bc eqs by (simp add: bestsOnlyLowered_def)
  have g: "(globalBestFitness c = globalBestFitness a \<and>
        globalBestPosition c = globalBestPosition a) \<or>
       lower (fitness a) (globalBestFitness a) (globalBestFitness c)"
    using 1 2 by (auto intro: lower_trans)
  show ?thesis unfolding bestsOnlyLowered_def using eqs p l g by simp
qed


lemma betterParticle_lowered:
  "betterParticle f idx opt = Inr opt' \<Longrightarrow> f \<in> range (fitness opt) \<Longrightarrow> bestsOnlyLowered opt opt'"
  by (auto simp: betterParticle_def seq_Inr getAt_def bestsOnlyLowered_def lower_def nth_list_update
      split: if_splits)

lemma betterLocal_lowered:
  "betterLocal f idx opt = Inr opt' \<Longrightarrow> f \<in> range (fitness opt) \<Longrightarrow> bestsOnlyLowered opt opt'"
  by (auto simp: betterLocal_def seq_Inr getAt_def getAt_int_def Let_def bestsOnlyLowered_def lower_def nth_list_update
      split: if_splits)

lemma betterGlobal_lowered:
  "betterGlobal f idx opt = Inr opt' \<Longrightarrow> f \<in> range (fitness opt) \<Longrightarrow> bestsOnlyLowered opt opt'"
  by (auto simp: betterGlobal_def seq_Inr getAt_def bestsOnlyLowered_def lower_def
      split: if_splits)


lemma getParticleFitness_Some:
  "getParticleFitness (Some opt) i = Inr r \<Longrightarrow> snd r = Some f \<Longrightarrow>
     f \<in> range (fitness opt) \<and> fst r = i"
  by (auto simp: getParticleFitness_def seq_Inr Let_def split: if_splits)

lemma getParticleFitness_idx:
  "getParticleFitness (Some opt) i = Inr r \<Longrightarrow> fst r = i"
  by (auto simp: getParticleFitness_def seq_Inr Let_def split: if_splits)

lemma retrieve_None:
  assumes "retrieve i (opt, avg, count) = Inr (opt', avg', count')"
    and "getParticleFitness (Some opt) i = Inr r" and "snd r = None"
  shows "opt' = opt\<lparr>stallCount := (stallCount opt)[i := stallCount opt ! i + 1]\<rparr> \<and>
         avg' = avg \<and> count' = count \<and> i < length (stallCount opt)"
  using assms getParticleFitness_idx [OF assms(2)]
  by (auto simp: retrieve_def seq_Inr getAt_def split: if_splits)

lemma retrieve_Some:
  assumes "retrieve i (opt, avg, count) = Inr (opt', avg', count')"
    and "getParticleFitness (Some opt) i = Inr r" and "snd r = Some f"
  shows "\<exists>o1 o2. betterParticle f i opt = Inr o1 \<and> betterLocal f i o1 = Inr o2 \<and>
           betterGlobal f i o2 = Inr opt' \<and> avg' = avg + f \<and> count' = count + 1"
  using assms getParticleFitness_idx [OF assms(2)]
  by (auto simp: retrieve_def seq_Inr)

lemma retrieve_lowered:
  assumes "retrieve i (opt, avg, count) = Inr (opt', avg', count')"
  shows "bestsOnlyLowered opt opt'"
proof -
  from assms obtain r where g: "getParticleFitness (Some opt) i = Inr r"
    by (auto simp: retrieve_def seq_Inr)
  show ?thesis
  proof (cases "snd r")
    case None
    from retrieve_None [OF assms g None] show ?thesis
      by (simp add: bestsOnlyLowered_def)
  next
    case (Some f)
    have fr: "f \<in> range (fitness opt)"
      using getParticleFitness_Some [OF g Some] by simp
    from retrieve_Some [OF assms g Some] obtain o1 o2 where
      s1: "betterParticle f i opt = Inr o1" and
      s2: "betterLocal f i o1 = Inr o2" and
      s3: "betterGlobal f i o2 = Inr opt'"
      by blast
    have b1: "bestsOnlyLowered opt o1" using betterParticle_lowered [OF s1 fr] .
    then have f1: "fitness o1 = fitness opt" by (simp add: bestsOnlyLowered_def)
    have b2: "bestsOnlyLowered o1 o2" using betterLocal_lowered [OF s2] fr f1 by simp
    then have f2: "fitness o2 = fitness opt" using f1 by (simp add: bestsOnlyLowered_def)
    have b3: "bestsOnlyLowered o2 opt'" using betterGlobal_lowered [OF s3] fr f2 by simp
    show ?thesis using bestsOnlyLowered_trans [OF bestsOnlyLowered_trans [OF b1 b2] b3] .
  qed
qed

lemma updateParticle_frame:
  assumes "updateParticle idx opt = Inr opt'"
  shows "fitness opt' = fitness opt \<and> shape opt' = shape opt \<and> options opt' = options opt \<and>
         positions opt' = positions opt \<and> stallCount opt' = stallCount opt \<and>
         particleBestPosition opt' = particleBestPosition opt \<and>
         particleBestFitness opt' = particleBestFitness opt \<and>
         localBestPosition opt' = localBestPosition opt \<and>
         localBestFitness opt' = localBestFitness opt \<and>
         globalBestPosition opt' = globalBestPosition opt \<and>
         globalBestFitness opt' = globalBestFitness opt \<and>
         averageFitness opt' = averageFitness opt \<and> finish opt' = finish opt"
  using assms
  by (auto simp: updateParticle_def seq_Inr Float64_def Let_def split: if_splits)


lemma updateFitness_Some:
  "updateFitness (Some opt) = Inr h \<longleftrightarrow>
     (\<not> sint (Parallelism (options opt)) < 0 \<and>
      \<not> (Parallelism (options opt) = 0 \<and> population opt \<noteq> []) \<and>
      (\<exists>o1 avg count. forEach (arrivals opt) retrieve (opt, 0, 0) = Inr (o1, avg, count) \<and>
         h = Some (o1\<lparr>averageFitness := (if count = 0 then None else Some (avg / count)),
                       finish := \<lambda>k. finish o1 (Suc k)\<rparr>)))"
  by (auto simp: updateFitness_def seq_Inr)

lemma updateFitness_lowered:
  assumes "updateFitness (Some opt) = Inr (Some opt')"
  shows "bestsOnlyLowered opt opt'"
proof -
  from assms obtain o1 avg count where
    l: "forEach (arrivals opt) retrieve (opt, 0, 0) = Inr (o1, avg, count)" and
    e: "opt' = o1\<lparr>averageFitness := (if count = 0 then None else Some (avg / count)),
                  finish := \<lambda>k. finish o1 (Suc k)\<rparr>"
    unfolding updateFitness_Some by blast
  have "bestsOnlyLowered opt (fst (o1, avg, count))"
  proof (rule forEach_invariant [OF l, where P = "\<lambda>s. bestsOnlyLowered opt (fst s)"])
    show "bestsOnlyLowered opt (fst (opt, 0::real, 0::real))"
      by (simp add: bestsOnlyLowered_refl)
  next
    fix i s s'
    assume p: "bestsOnlyLowered opt (fst s)" and r: "retrieve i s = Inr s'"
    obtain a b c where s: "s = (a, b, c)" by (cases s)
    obtain a' b' c' where s': "s' = (a', b', c')" by (cases s')
    from retrieve_lowered [of i a b c a' b' c'] r s s' have "bestsOnlyLowered a a'" by simp
    with p s s' show "bestsOnlyLowered opt (fst s')"
      using bestsOnlyLowered_trans by auto
  qed
  then show ?thesis using e by (simp add: bestsOnlyLowered_def)
qed

lemma updateParticle_lowered:
  "updateParticle idx opt = Inr opt' \<Longrightarrow> bestsOnlyLowered opt opt'"
  using updateParticle_frame [of idx opt opt'] by (simp add: bestsOnlyLowered_def)

lemma Step_Some:
  "Step (Some opt) = Inr h \<longleftrightarrow>
     (\<exists>o1 o2. updateFitness (Some opt) = Inr (Some o1) \<and>
        forEach (population o1) updateParticle o1 = Inr o2 \<and> h = Some o2)"
  by (auto simp: Step_def seq_Inr split: option.splits)

lemma Step_lowered:
  assumes "Step (Some opt) = Inr (Some opt')"
  shows "bestsOnlyLowered opt opt'"
proof -
  from assms obtain o1 where u: "updateFitness (Some opt) = Inr (Some o1)"
    and l: "forEach (population o1) updateParticle o1 = Inr opt'"
    by (auto simp: Step_Some)
  have "bestsOnlyLowered o1 opt'"
    by (rule forEach_invariant [OF l, where P = "bestsOnlyLowered o1"])
      (auto intro: bestsOnlyLowered_refl bestsOnlyLowered_trans updateParticle_lowered)
  with updateFitness_lowered [OF u] show ?thesis by (rule bestsOnlyLowered_trans)
qed

section \<open>The bests never rise\<close>

text \<open>
  C3. In every step that returns, each personal best fitness, each group best fitness and
  the global best fitness is either unchanged or replaced by a strictly lower value that
  the fitness function returned: the bests are non-increasing. A group best and the global
  best that keep their fitness (a tie included) keep their position as well.
\<close>

theorem Step_bests_never_rise:
  assumes "Step (Some opt) = Inr (Some opt')"
  shows "length (particleBestFitness opt') = length (particleBestFitness opt) \<and>
         length (localBestFitness opt') = length (localBestFitness opt) \<and>
         length (localBestPosition opt') = length (localBestPosition opt) \<and>
         (\<forall>i<length (particleBestFitness opt).
            particleBestFitness opt' ! i = particleBestFitness opt ! i \<or>
            (particleBestFitness opt' ! i < particleBestFitness opt ! i \<and>
             particleBestFitness opt' ! i \<in> range (fitness opt))) \<and>
         (\<forall>g<length (localBestFitness opt).
            (localBestFitness opt' ! g = localBestFitness opt ! g \<and>
             localBestPosition opt' ! g = localBestPosition opt ! g) \<or>
            (localBestFitness opt' ! g < localBestFitness opt ! g \<and>
             localBestFitness opt' ! g \<in> range (fitness opt))) \<and>
         ((globalBestFitness opt' = globalBestFitness opt \<and>
           globalBestPosition opt' = globalBestPosition opt) \<or>
          (globalBestFitness opt' < globalBestFitness opt \<and>
           globalBestFitness opt' \<in> range (fitness opt)))"
  using Step_lowered [OF assms] unfolding bestsOnlyLowered_def lower_def by simp


theorem Step_bests_never_rise_witness:
  "\<exists>opt opt'.
     New quarter inOrder 1 (\<lambda>v. 1) [(0, 1)] (noOptions\<lparr>PopulationSize := 1, LocalSize := 1\<rparr>) =
       Inr (Some opt) \<and>
     Step (Some opt) = Inr (Some opt') \<and>
     globalBestFitness opt = MaxFloat64 \<and> globalBestFitness opt' = 1 \<and>
     globalBestFitness opt' < globalBestFitness opt \<and>
     globalBestFitness opt' \<in> range (fitness opt)"
proof -
  have "\<exists>opt opt'.
     New quarter inOrder 1 (\<lambda>v. 1) [(0, 1)] (noOptions\<lparr>PopulationSize := 1, LocalSize := 1\<rparr>) =
       Inr (Some opt) \<and>
     Step (Some opt) = Inr (Some opt') \<and>
     globalBestFitness opt = MaxFloat64 \<and> globalBestFitness opt' = 1"
    by (simp add: run_defs MaxFloat64_def)
  then obtain opt opt' where
    n: "New quarter inOrder 1 (\<lambda>v. 1) [(0, 1)]
          (noOptions\<lparr>PopulationSize := 1, LocalSize := 1\<rparr>) = Inr (Some opt)" and
    s: "Step (Some opt) = Inr (Some opt')" and
    g: "globalBestFitness opt = MaxFloat64" "globalBestFitness opt' = 1"
    by blast
  have "(1::real) \<noteq> MaxFloat64" by (simp add: MaxFloat64_def)
  with Step_bests_never_rise [OF s] g have
    "globalBestFitness opt' < globalBestFitness opt \<and>
     globalBestFitness opt' \<in> range (fitness opt)"
    by auto
  with n s g show ?thesis by blast
qed

section \<open>The update rule\<close>

text \<open>A property that the turn for \<open>i\<close> sets up and every turn keeps holds at the end.\<close>

lemma forEach_establishes:
  assumes "forEach xs body s = Inr s'" and "i \<in> set xs"
    and est: "\<And>s s'. body i s = Inr s' \<Longrightarrow> Q s'"
    and pres: "\<And>k s s'. body k s = Inr s' \<Longrightarrow> Q s \<Longrightarrow> Q s'"
  shows "Q s'"
  using assms(1,2)
proof (induction xs arbitrary: s)
  case Nil
  then show ?case by simp
next
  case (Cons k rest)
  from Cons.prems(1) obtain s1 where b: "body k s = Inr s1" and r: "forEach rest body s1 = Inr s'"
    by (auto split: sum.splits)
  show ?case
  proof (cases "i \<in> set rest")
    case True
    then show ?thesis using Cons.IH [OF r] by simp
  next
    case False
    with Cons.prems(2) have "i = k" by simp
    with b est have "Q s1" by blast
    then show ?thesis
      by (rule forEach_invariant [OF r]) (use pres in blast)
  qed
qed

lemma Clip_within:
  "r \<noteq> (0, 0) \<Longrightarrow> fst r \<le> snd r \<Longrightarrow> fst r \<le> Clip r x \<and> Clip r x \<le> snd r"
  by (cases r) (auto simp: Clip_def)

lemma clipInto_nth:
  "clipInto bs np position = Inr position' \<Longrightarrow>
     length position' = length position \<and> length bs \<le> length position \<and>
     length bs \<le> length np \<and>
     (\<forall>j<length bs. position' ! j = Clip (bs ! j) (np ! j)) \<and>
     (\<forall>j\<ge>length bs. position' ! j = position ! j)"
proof (induction bs np position arbitrary: position' rule: clipInto.induct)
  case (4 bounds rest x np p position)
  from "4.prems" obtain tail where t: "clipInto rest np position = Inr tail"
    and e: "position' = Clip bounds x # tail"
    by (auto split: sum.splits)
  from "4.IH" [OF t] show ?case unfolding e
    by (auto simp: nth_Cons split: nat.splits)
qed simp_all

lemma clipInto_clipped: "clipInto bs np position = Inr position' \<Longrightarrow> clipped bs position'"
  using clipInto_nth [of bs np position position'] Clip_within
  by (auto simp: clipped_def)

lemma updateParticle_cells:
  assumes "updateParticle idx opt = Inr opt'"
  shows "idx < length (positions opt) \<and>
         (\<exists>np position.
            clipInto (Bounds (options opt)) np (cells opt (positions opt ! idx)) = Inr position \<and>
            cells opt' = (cells opt)(positions opt ! idx := position))"
  using assms
  apply (clarsimp simp: updateParticle_def seq_Inr Float64_def getAt_def Let_def split: if_splits)
  apply blast
  done

lemma retrieve_frame:
  assumes "retrieve i (opt, avg, count) = Inr (opt', avg', count')"
  shows "options opt' = options opt \<and> positions opt' = positions opt \<and>
         shape opt' = shape opt \<and> finish opt' = finish opt \<and>
         particleBestPosition opt' = particleBestPosition opt \<and>
         velocities opt' = velocities opt \<and> rand_src opt' = rand_src opt"
proof -
  from assms obtain r where g: "getParticleFitness (Some opt) i = Inr r"
    by (auto simp: retrieve_def seq_Inr)
  show ?thesis
  proof (cases "snd r")
    case None
    from retrieve_None [OF assms g None] show ?thesis by simp
  next
    case (Some f)
    from retrieve_Some [OF assms g Some] obtain o1 o2 where
      s1: "betterParticle f i opt = Inr o1" and
      s2: "betterLocal f i o1 = Inr o2" and
      s3: "betterGlobal f i o2 = Inr opt'"
      by blast
    from s1 have "options o1 = options opt \<and> positions o1 = positions opt \<and>
         shape o1 = shape opt \<and> finish o1 = finish opt \<and>
         particleBestPosition o1 = particleBestPosition opt \<and>
         velocities o1 = velocities opt \<and> rand_src o1 = rand_src opt"
      by (auto simp: betterParticle_def seq_Inr split: if_splits)
    moreover from s2 have "options o2 = options o1 \<and> positions o2 = positions o1 \<and>
         shape o2 = shape o1 \<and> finish o2 = finish o1 \<and>
         particleBestPosition o2 = particleBestPosition o1 \<and>
         velocities o2 = velocities o1 \<and> rand_src o2 = rand_src o1"
      by (auto simp: betterLocal_def seq_Inr Let_def split: if_splits)
    moreover from s3 have "options opt' = options o2 \<and> positions opt' = positions o2 \<and>
         shape opt' = shape o2 \<and> finish opt' = finish o2 \<and>
         particleBestPosition opt' = particleBestPosition o2 \<and>
         velocities opt' = velocities o2 \<and> rand_src opt' = rand_src o2"
      by (auto simp: betterGlobal_def seq_Inr split: if_splits)
    ultimately show ?thesis by simp
  qed
qed

lemma updateFitness_sameSetup:
  assumes "updateFitness (Some opt) = Inr (Some opt')"
  shows "sameSetup opt opt'"
proof -
  from assms obtain o1 avg count where
    l: "forEach (arrivals opt) retrieve (opt, 0, 0) = Inr (o1, avg, count)" and
    e: "opt' = o1\<lparr>averageFitness := (if count = 0 then None else Some (avg / count)),
                  finish := \<lambda>k. finish o1 (Suc k)\<rparr>"
    unfolding updateFitness_Some by blast
  have "sameSetup opt (fst (o1, avg, count))"
  proof (rule forEach_invariant [OF l, where P = "\<lambda>s. sameSetup opt (fst s)"])
    show "sameSetup opt (fst (opt, 0::real, 0::real))" by (simp add: sameSetup_def)
  next
    fix i s s'
    assume p: "sameSetup opt (fst s)" and r: "retrieve i s = Inr s'"
    obtain a b c where s: "s = (a, b, c)" by (cases s)
    obtain a' b' c' where s': "s' = (a', b', c')" by (cases s')
    from retrieve_frame [of i a b c a' b' c'] r s s' p show "sameSetup opt (fst s')"
      by (simp add: sameSetup_def)
  qed
  then show ?thesis using e by (simp add: sameSetup_def)
qed

lemma updateParticle_sameSetup: "updateParticle idx opt = Inr opt' \<Longrightarrow> sameSetup opt opt'"
  using updateParticle_frame [of idx opt opt'] by (simp add: sameSetup_def)

lemma Step_sameSetup:
  assumes "Step (Some opt) = Inr (Some opt')"
  shows "sameSetup opt opt'"
proof -
  from assms obtain o1 where u: "updateFitness (Some opt) = Inr (Some o1)"
    and l: "forEach (population o1) updateParticle o1 = Inr opt'"
    by (auto simp: Step_Some)
  have "sameSetup o1 opt'"
    by (rule forEach_invariant [OF l, where P = "sameSetup o1"])
      (auto simp: sameSetup_def dest!: updateParticle_sameSetup)
  with updateFitness_sameSetup [OF u] show ?thesis by (simp add: sameSetup_def)
qed

lemma updateParticle_clips: "updateParticle i opt = Inr opt' \<Longrightarrow> positionClipped i opt'"
  using updateParticle_cells [of i opt opt'] updateParticle_frame [of i opt opt']
  by (auto simp: positionClipped_def dest: clipInto_clipped)

lemma updateParticle_keeps_clipped:
  "updateParticle k opt = Inr opt' \<Longrightarrow> positionClipped i opt \<Longrightarrow> positionClipped i opt'"
  using updateParticle_cells [of k opt opt'] updateParticle_frame [of k opt opt']
  by (auto simp: positionClipped_def dest: clipInto_clipped)

section \<open>Positions and Bounds\<close>

text \<open>
  C4, amended. Immediately after the update rule of a step that returns, for every particle
  and every dimension \<open>j\<close> covered by a Bounds range that is not the sentinel and has
  \<open>lower \<le> upper\<close>, the position coordinate lies in the range:
  \<open>Bounds[j].lower \<le> position[j] \<le> Bounds[j].upper\<close>.
\<close>

theorem Step_positions_within_Bounds:
  assumes "Step (Some opt) = Inr (Some opt')"
    and "idx < nat (sint (PopulationSize (options opt)))"
    and "j < length (Bounds (options opt))"
    and "Bounds (options opt) ! j \<noteq> (0, 0)"
    and "fst (Bounds (options opt) ! j) \<le> snd (Bounds (options opt) ! j)"
  shows "fst (Bounds (options opt) ! j) \<le> cells opt' (positions opt' ! idx) ! j \<and>
         cells opt' (positions opt' ! idx) ! j \<le> snd (Bounds (options opt) ! j)"
proof -
  from assms(1) obtain o1 where u: "updateFitness (Some opt) = Inr (Some o1)"
    and l: "forEach (population o1) updateParticle o1 = Inr opt'"
    by (auto simp: Step_Some)
  have o: "options o1 = options opt" using updateFitness_sameSetup [OF u] by (simp add: sameSetup_def)
  have o': "options opt' = options opt" using Step_sameSetup [OF assms(1)] by (simp add: sameSetup_def)
  have "idx \<in> set (population o1)" using assms(2) o by (simp add: population_def)
  with l have "positionClipped idx opt'"
    by (rule forEach_establishes) (auto intro: updateParticle_clips updateParticle_keeps_clipped)
  then show ?thesis using assms(3-5) o' by (simp add: positionClipped_def clipped_def)
qed


theorem Step_positions_within_Bounds_witness:
  "\<exists>opt opt'.
     New quarter inOrder 1 (\<lambda>v. 1) [(0, 1)]
       (noOptions\<lparr>PopulationSize := 1, LocalSize := 1, Bounds := [(0, 1)]\<rparr>) = Inr (Some opt) \<and>
     Step (Some opt) = Inr (Some opt') \<and>
     Bounds (options opt) = [(0, 1)] \<and>
     map (cells opt') (positions opt') = [[0]] \<and>
     fst (Bounds (options opt) ! 0) \<le> cells opt' (positions opt' ! 0) ! 0 \<and>
     cells opt' (positions opt' ! 0) ! 0 \<le> snd (Bounds (options opt) ! 0)"
proof -
  have "\<exists>opt opt'.
     New quarter inOrder 1 (\<lambda>v. 1) [(0, 1)]
       (noOptions\<lparr>PopulationSize := 1, LocalSize := 1, Bounds := [(0, 1)]\<rparr>) = Inr (Some opt) \<and>
     Step (Some opt) = Inr (Some opt') \<and>
     Bounds (options opt) = [(0, 1)] \<and> PopulationSize (options opt) = 1 \<and>
     map (cells opt') (positions opt') = [[0]]"
    by (simp add: run_defs MaxFloat64_def Contains_def Clip_def)
  then obtain opt opt' where
    n: "New quarter inOrder 1 (\<lambda>v. 1) [(0, 1)]
          (noOptions\<lparr>PopulationSize := 1, LocalSize := 1, Bounds := [(0, 1)]\<rparr>) =
        Inr (Some opt)" and
    s: "Step (Some opt) = Inr (Some opt')" and
    b: "Bounds (options opt) = [(0, 1)]" and
    p: "PopulationSize (options opt) = 1" and
    c: "map (cells opt') (positions opt') = [[0]]"
    by (elim exE conjE)
  from Step_positions_within_Bounds [OF s, of 0 0] b p have
    "fst (Bounds (options opt) ! 0) \<le> cells opt' (positions opt' ! 0) ! 0 \<and>
     cells opt' (positions opt' ! 0) ! 0 \<le> snd (Bounds (options opt) ! 0)"
    by simp
  with n s b c show ?thesis
    by (intro exI [of _ opt] exI [of _ opt']) simp
qed

text \<open>
  The claim as stated, for every range other than the sentinel, fails on a range whose
  lower end is above its upper end: with \<^verbatim>\<open>Bounds: {{5, 1}}\<close> the update rule clips the
  coordinate to 5, above the upper end 1.
\<close>

theorem inverted_Bounds_counterexample:
  "\<exists>opt opt'.
     New quarter inOrder 1 (\<lambda>v. 1) [(0, 1)]
       (noOptions\<lparr>PopulationSize := 1, LocalSize := 1, Bounds := [(5, 1)]\<rparr>) = Inr (Some opt) \<and>
     Step (Some opt) = Inr (Some opt') \<and>
     Bounds (options opt) ! 0 = (5, 1) \<and> Bounds (options opt) ! 0 \<noteq> (0, 0) \<and>
     cells opt' (positions opt' ! 0) ! 0 = 5 \<and>
     \<not> cells opt' (positions opt' ! 0) ! 0 \<le> snd (Bounds (options opt) ! 0)"
  by (simp add: run_defs MaxFloat64_def Contains_def Clip_def)

section \<open>Infeasible particles\<close>





lemma infeasible_stallCount [simp]:
  "infeasible (opt\<lparr>stallCount := sc\<rparr>) i = infeasible opt i"
  by (simp add: infeasible_def)





lemma StepTimes_None: "StepTimes n None = Inr h \<Longrightarrow> n = 0 \<and> h = None"
  by (cases n) (simp_all add: seq_Inr Step_def updateFitness_def seq_def)


lemma copy_self [simp]: "copy xs xs = xs"
  by (induction xs) simp_all




































section \<open>StepUntil\<close>

lemma loop_body_turn:
  "(case Step (Some opt) of
      Inl e \<Rightarrow> Some (Inl e)
    | Inr None \<Rightarrow> Some (Inl NilDereference)
    | Inr (Some opt') \<Rightarrow>
        if globalBestFitness opt - globalBestFitness opt' < e then
          if waitedEnough (WaitMagnitude (options opt')) (t + 1) (s + 1)
          then Some (Inr (t + 1, Some opt'))
          else f e opt' (t + 1) (globalBestFitness opt') (s + 1)
        else f e opt' (t + 1) (globalBestFitness opt') 0) =
   (case turn e (opt, t, s) of
      Inl err \<Rightarrow> Some (Inl err)
    | Inr (opt', t', s') \<Rightarrow>
        if stops (opt', t', s') then Some (Inr (t', Some opt'))
        else f e opt' t' (globalBestFitness opt') s')"
  by (auto simp: turn_def stops_def seq_def waitedEnough_def split: sum.splits option.splits)

lemma untilLoop_turn:
  "untilLoop e opt t (globalBestFitness opt) s =
     (case turn e (opt, t, s) of
        Inl err \<Rightarrow> Some (Inl err)
      | Inr (opt', t', s') \<Rightarrow>
          if stops (opt', t', s') then Some (Inr (t', Some opt'))
          else untilLoop e opt' t' (globalBestFitness opt') s')"
  by (subst untilLoop.simps) (rule loop_body_turn)

text \<open>The loop returns when a turn stops and no earlier turn did.\<close>

lemma untilLoop_returns:
  assumes "turns e (Suc k) (opt, t, s) = Inr (opt', t', s')"
    and "stops (opt', t', s')"
    and "\<forall>j<k. \<forall>u. turns e (Suc j) (opt, t, s) = Inr u \<longrightarrow> \<not> stops u"
  shows "untilLoop e opt t (globalBestFitness opt) s = Some (Inr (t', Some opt'))"
  using assms
proof (induction k arbitrary: opt t s)
  case 0
  then show ?case by (subst untilLoop_turn) (simp add: seq_Inr)
next
  case (Suc k)
  from Suc.prems(1) obtain o1 t1 s1 where
    f: "turn e (opt, t, s) = Inr (o1, t1, s1)" and
    r: "turns e (Suc k) (o1, t1, s1) = Inr (opt', t', s')"
    by (auto simp: seq_Inr)
  have n: "\<not> stops (o1, t1, s1)"
    using Suc.prems(3) [rule_format, of 0 "(o1, t1, s1)"] f by (simp add: seq_def)
  have "\<forall>j<k. \<forall>u. turns e (Suc j) (o1, t1, s1) = Inr u \<longrightarrow> \<not> stops u"
  proof (intro allI impI)
    fix j u assume "j < k" and "turns e (Suc j) (o1, t1, s1) = Inr u"
    then show "\<not> stops u"
      using Suc.prems(3) [rule_format, of "Suc j" u] f by (simp add: seq_def)
  qed
  from Suc.IH [OF r Suc.prems(2) this] f n show ?case
    by (subst untilLoop_turn) simp
qed

text \<open>A loop that returns has stopped at a turn, and at no earlier one.\<close>

lemma untilLoop_returned:
  assumes "untilLoop e opt t lb s = Some y"
  shows "lb = globalBestFitness opt \<longrightarrow>
         (\<forall>n opt'. y = Inr (n, Some opt') \<longrightarrow>
            (\<exists>k s'. turns e (Suc k) (opt, t, s) = Inr (opt', n, s') \<and> stops (opt', n, s') \<and>
               (\<forall>j<k. \<forall>u. turns e (Suc j) (opt, t, s) = Inr u \<longrightarrow> \<not> stops u)))"
proof -
  let ?P = "\<lambda>e opt t lb s y. lb = globalBestFitness opt \<longrightarrow>
         (\<forall>n opt'. y = Inr (n, Some opt') \<longrightarrow>
            (\<exists>k s'. turns e (Suc k) (opt, t, s) = Inr (opt', n, s') \<and> stops (opt', n, s') \<and>
               (\<forall>j<k. \<forall>u. turns e (Suc j) (opt, t, s) = Inr u \<longrightarrow> \<not> stops u)))"
  have step: "?P e opt t lb s y"
    if IH: "\<And>e opt t lb s y. f e opt t lb s = Some y \<Longrightarrow> ?P e opt t lb s y"
    and body: "(case Step (Some opt) of
        Inl e \<Rightarrow> Some (Inl e)
      | Inr None \<Rightarrow> Some (Inl NilDereference)
      | Inr (Some opt') \<Rightarrow>
          if lb - globalBestFitness opt' < e then
            if waitedEnough (WaitMagnitude (options opt')) (t + 1) (s + 1)
            then Some (Inr (t + 1, Some opt'))
            else f e opt' (t + 1) (globalBestFitness opt') (s + 1)
          else f e opt' (t + 1) (globalBestFitness opt') 0) = Some y"
    for f e opt t lb s y
  proof (intro impI allI)
    fix n opt'
    assume lb: "lb = globalBestFitness opt" and y: "y = Inr (n, Some opt')"
    from body [unfolded lb loop_body_turn]
    have b: "(case turn e (opt, t, s) of
        Inl err \<Rightarrow> Some (Inl err)
      | Inr (opt', t', s') \<Rightarrow>
          if stops (opt', t', s') then Some (Inr (t', Some opt'))
          else f e opt' t' (globalBestFitness opt') s') = Some y" .
    show "\<exists>k s'. turns e (Suc k) (opt, t, s) = Inr (opt', n, s') \<and> stops (opt', n, s') \<and>
               (\<forall>j<k. \<forall>u. turns e (Suc j) (opt, t, s) = Inr u \<longrightarrow> \<not> stops u)"
    proof (cases "turn e (opt, t, s)")
      case (Inl err)
      with b y show ?thesis by simp
    next
      case (Inr w)
      obtain o1 t1 s1 where w: "w = (o1, t1, s1)" by (cases w)
      show ?thesis
      proof (cases "stops (o1, t1, s1)")
        case True
        with b Inr w y have "t1 = n" "o1 = opt'" by simp_all
        with True Inr w show ?thesis
          by (intro exI [of _ 0] exI [of _ s1]) (simp add: seq_def)
      next
        case False
        with b Inr w have "f e o1 t1 (globalBestFitness o1) s1 = Some y" by simp
        from IH [OF this] y obtain k s' where
          r: "turns e (Suc k) (o1, t1, s1) = Inr (opt', n, s')" and
          st: "stops (opt', n, s')" and
          nn: "\<forall>j<k. \<forall>u. turns e (Suc j) (o1, t1, s1) = Inr u \<longrightarrow> \<not> stops u"
          by blast
        have "\<forall>j<Suc k. \<forall>u. turns e (Suc j) (opt, t, s) = Inr u \<longrightarrow> \<not> stops u"
        proof (intro allI impI)
          fix j u assume j: "j < Suc k" and u: "turns e (Suc j) (opt, t, s) = Inr u"
          show "\<not> stops u"
          proof (cases j)
            case 0
            with u Inr w False show ?thesis by (simp add: seq_def)
          next
            case (Suc i)
            with u Inr w have tu: "turns e (Suc i) (o1, t1, s1) = Inr u" by (simp add: seq_def)
            have "i < k" using j Suc by simp
            from nn [rule_format, OF this tu] show ?thesis .
          qed
        qed
        with r st Inr w show ?thesis
          by (intro exI [of _ "Suc k"] exI [of _ s']) (simp add: seq_def)
      qed
    qed
  qed
  show ?thesis
    by (rule untilLoop.raw_induct [where P = ?P, OF step assms])
qed


lemma turns_counts:
  "turns e k (opt, t, s) = Inr (opt', t', s') \<Longrightarrow>
     t' = t + k \<and> StepTimes k (Some opt) = Inr (Some opt')"
proof (induction k arbitrary: opt t s)
  case 0
  then show ?case by simp
next
  case (Suc k)
  from Suc.prems obtain o1 t1 s1 where
    f: "turn e (opt, t, s) = Inr (o1, t1, s1)" and
    r: "turns e k (o1, t1, s1) = Inr (opt', t', s')"
    by (auto simp: seq_Inr)
  from f have "Step (Some opt) = Inr (Some o1)" "t1 = t + 1"
    by (auto simp: turn_def seq_Inr split: option.splits)
  with Suc.IH [OF r] show ?case by (simp add: seq_def)
qed

lemma waitedEnough_log:
  "0 < s \<Longrightarrow> 0 < t \<Longrightarrow>
     waitedEnough w t s \<longleftrightarrow> log 10 (real s) > w \<and> log 10 (real t) - log 10 (real s) < w"
  by (simp add: waitedEnough_def Let_def)

lemma waitedEnough_100_50: "waitedEnough 1 100 50"
proof -
  have "(1::real) < log 10 50" by (subst less_log_iff) simp_all
  moreover have "log 10 100 - log 10 50 = log 10 (100 / 50)" by (subst log_divide) simp_all
  moreover have "log 10 (100 / 50) < (1::real)" by (subst log_less_iff) simp_all
  ultimately show ?thesis by (simp add: waitedEnough_def Let_def)
qed

lemma waitedEnough_100_2: "\<not> waitedEnough 1 100 2"
proof -
  have "\<not> (1::real) < log 10 2" by (subst less_log_iff) simp_all
  then show ?thesis by (simp add: waitedEnough_def Let_def)
qed

lemma half_less_log10: "0 < x \<Longrightarrow> 1 / 2 < log 10 x \<longleftrightarrow> 10 < x\<^sup>2" for x :: real
proof -
  assume x: "0 < x"
  have "1 / 2 < log 10 x \<longleftrightarrow> 10 powr (1 / 2) < x" using x by (subst less_log_iff) simp_all
  also have "10 powr (1 / 2) = sqrt (10::real)" by (simp add: powr_half_sqrt)
  also have "sqrt 10 < x \<longleftrightarrow> 10 < x\<^sup>2"
    using x by (metis less_eq_real_def real_less_lsqrt real_sqrt_less_iff real_sqrt_abs abs_of_pos
        real_sqrt_abs2 power2_eq_square real_sqrt_unique)
  finally show ?thesis .
qed


lemma log10_less_half: "0 < x \<Longrightarrow> log 10 x < 1 / 2 \<longleftrightarrow> x\<^sup>2 < 10" for x :: real
proof -
  assume x: "0 < x"
  have "log 10 x < 1 / 2 \<longleftrightarrow> x < 10 powr (1 / 2)" using x by (subst log_less_iff) simp_all
  also have "10 powr (1 / 2) = sqrt (10::real)" by (simp add: powr_half_sqrt)
  also have "x < sqrt 10 \<longleftrightarrow> x\<^sup>2 < 10"
    using x by (metis less_eq_real_def real_sqrt_less_iff real_sqrt_abs abs_of_pos)
  finally show ?thesis .
qed

lemma waitedEnough_half:
  assumes "0 < s" and "0 < t"
  shows "waitedEnough (1 / 2) t s \<longleftrightarrow> 10 < (real s)\<^sup>2 \<and> (real t)\<^sup>2 < 10 * (real s)\<^sup>2"
proof -
  have "log 10 (real t) - log 10 (real s) = log 10 (real t / real s)"
    using assms by (subst log_divide) simp_all
  moreover have "log 10 (real t / real s) < 1 / 2 \<longleftrightarrow> (real t / real s)\<^sup>2 < 10"
    using assms by (intro log10_less_half) simp
  moreover have "(real t / real s)\<^sup>2 < 10 \<longleftrightarrow> (real t)\<^sup>2 < 10 * (real s)\<^sup>2"
    using assms by (simp add: power_divide divide_simps)
  moreover have "1 / 2 < log 10 (real s) \<longleftrightarrow> 10 < (real s)\<^sup>2"
    using assms by (intro half_less_log10) simp
  ultimately show ?thesis using assms by (simp add: waitedEnough_log)
qed

lemma StepUntil_iff:
  "StepUntil (Some opt) progressRate = Some (Inr (n, Some opt')) \<longleftrightarrow>
     (\<exists>opt1 k s.
        Step (Some opt) = Inr (Some opt1) \<and>
        turns \<bar>progressRate\<bar> (Suc k) (opt1, 1, 0) = Inr (opt', n, s) \<and>
        stops (opt', n, s) \<and>
        (\<forall>j<k. \<forall>u. turns \<bar>progressRate\<bar> (Suc j) (opt1, 1, 0) = Inr u \<longrightarrow> \<not> stops u))"
  (is "?l \<longleftrightarrow> ?r")
proof
  assume l: ?l
  then obtain opt1 where s: "Step (Some opt) = Inr (Some opt1)"
    and u: "untilLoop \<bar>progressRate\<bar> opt1 1 (globalBestFitness opt1) 0 =
            Some (Inr (n, Some opt'))"
    by (auto simp: StepUntil_def split: sum.splits option.splits)
  from untilLoop_returned [OF u] s show ?r by blast
next
  assume ?r
  then obtain opt1 k s where s: "Step (Some opt) = Inr (Some opt1)"
    and t: "turns \<bar>progressRate\<bar> (Suc k) (opt1, 1, 0) = Inr (opt', n, s)"
    and st: "stops (opt', n, s)"
    and nn: "\<forall>j<k. \<forall>u. turns \<bar>progressRate\<bar> (Suc j) (opt1, 1, 0) = Inr u \<longrightarrow> \<not> stops u"
    by blast
  from untilLoop_returns [OF t st nn] s show ?l by (simp add: StepUntil_def)
qed

lemma StepUntil_StepTimes:
  assumes "StepUntil (Some opt) progressRate = Some (Inr (n, Some opt'))"
  shows "StepTimes n (Some opt) = Inr (Some opt') \<and> 2 \<le> n"
proof -
  from assms [unfolded StepUntil_iff] obtain opt1 k s where
    s: "Step (Some opt) = Inr (Some opt1)" and
    t: "turns \<bar>progressRate\<bar> (Suc k) (opt1, 1, 0) = Inr (opt', n, s)"
    by blast
  from turns_counts [OF t] have "n = Suc (Suc k)"
    and "StepTimes (Suc k) (Some opt1) = Inr (Some opt')" by simp_all
  with s show ?thesis by (simp add: seq_def)
qed

text \<open>
  C2, amended. StepUntil takes a first step without any comparison, with the stagnation
  counter \<open>s\<close> at 0. After each later step, \<open>s\<close> is incremented if the global best improved
  by less than \<open>|progressRate|\<close> and reset to 0 otherwise, and the loop stops exactly when
  \<open>log10(s) > WaitMagnitude\<close> and \<open>log10(totalSteps) - log10(s) < WaitMagnitude\<close> (never with
  \<open>s = 0\<close>): StepUntil returns \<open>n\<close> if and only if the turn that makes the total \<open>n\<close> is the
  first whose test holds, and then \<open>n\<close> is the number of steps taken, the first included.
  With \<open>totalSteps = 100\<close>, \<open>s = 50\<close> and \<open>WaitMagnitude = 1\<close> the test holds, with \<open>s = 2\<close> it
  does not.
\<close>

theorem StepUntil_stops_exactly_when:
  "(StepUntil (Some opt) progressRate = Some (Inr (n, Some opt')) \<longleftrightarrow>
      (\<exists>opt1 k s.
         Step (Some opt) = Inr (Some opt1) \<and>
         turns \<bar>progressRate\<bar> (Suc k) (opt1, 1, 0) = Inr (opt', n, s) \<and>
         stops (opt', n, s) \<and>
         (\<forall>j<k. \<forall>u. turns \<bar>progressRate\<bar> (Suc j) (opt1, 1, 0) = Inr u \<longrightarrow> \<not> stops u))) \<and>
   (StepUntil (Some opt) progressRate = Some (Inr (n, Some opt')) \<longrightarrow>
      StepTimes n (Some opt) = Inr (Some opt') \<and> 2 \<le> n) \<and>
   (0 < s \<and> 0 < t \<longrightarrow>
      waitedEnough w t s = (log 10 (real s) > w \<and> log 10 (real t) - log 10 (real s) < w)) \<and>
   \<not> waitedEnough w t 0 \<and>
   waitedEnough 1 100 50 \<and> \<not> waitedEnough 1 100 2"
  using StepUntil_iff [of opt progressRate n opt'] StepUntil_StepTimes [of opt progressRate n opt']
    waitedEnough_log [of s t w] waitedEnough_100_50 waitedEnough_100_2
  by (simp add: waitedEnough_def)

lemma stall_run:
  "\<exists>opt o1 o2 o3 o4 o5.
     New quarter inOrder 1 (\<lambda>v. 1) [(0, 1)] stallOptions = Inr (Some opt) \<and>
     Step (Some opt) = Inr (Some o1) \<and> Step (Some o1) = Inr (Some o2) \<and>
     Step (Some o2) = Inr (Some o3) \<and> Step (Some o3) = Inr (Some o4) \<and>
     Step (Some o4) = Inr (Some o5) \<and>
     globalBestFitness opt = MaxFloat64 \<and> globalBestFitness o1 = MaxFloat64 \<and>
     globalBestFitness o2 = MaxFloat64 \<and> globalBestFitness o3 = MaxFloat64 \<and>
     globalBestFitness o4 = MaxFloat64 \<and> globalBestFitness o5 = MaxFloat64 \<and>
     WaitMagnitude (options opt) = 1 / 2 \<and> WaitMagnitude (options o1) = 1 / 2 \<and>
     WaitMagnitude (options o2) = 1 / 2 \<and> WaitMagnitude (options o3) = 1 / 2 \<and>
     WaitMagnitude (options o4) = 1 / 2 \<and> WaitMagnitude (options o5) = 1 / 2"
  by (simp add: run_defs stallOptions_def MaxFloat64_def)



lemma stall_turns:
  "\<exists>opt o1 o2 o3 o4 o5.
     New quarter inOrder 1 (\<lambda>v. 1) [(0, 1)] stallOptions = Inr (Some opt) \<and>
     Step (Some opt) = Inr (Some o1) \<and>
     turns 1 (Suc 0) (o1, 1, 0) = Inr (o2, 2, 1) \<and>
     turns 1 (Suc (Suc 0)) (o1, 1, 0) = Inr (o3, 3, 2) \<and>
     turns 1 (Suc (Suc (Suc 0))) (o1, 1, 0) = Inr (o4, 4, 3) \<and>
     turns 1 (Suc (Suc (Suc (Suc 0)))) (o1, 1, 0) = Inr (o5, 5, 4) \<and>
     WaitMagnitude (options opt) = 1 / 2 \<and>
     WaitMagnitude (options o2) = 1 / 2 \<and> WaitMagnitude (options o3) = 1 / 2 \<and>
     WaitMagnitude (options o4) = 1 / 2 \<and> WaitMagnitude (options o5) = 1 / 2 \<and>
     bestAfter opt 0 = MaxFloat64 \<and> bestAfter opt (Suc 0) = MaxFloat64 \<and>
     bestAfter opt (Suc (Suc 0)) = MaxFloat64 \<and>
     bestAfter opt (Suc (Suc (Suc 0))) = MaxFloat64 \<and>
     bestAfter opt (Suc (Suc (Suc (Suc 0)))) = MaxFloat64"
proof -
  from stall_run obtain opt o1 o2 o3 o4 o5 where
    n: "New quarter inOrder 1 (\<lambda>v. 1) [(0, 1)] stallOptions = Inr (Some opt)" and
    s: "Step (Some opt) = Inr (Some o1)" "Step (Some o1) = Inr (Some o2)"
       "Step (Some o2) = Inr (Some o3)" "Step (Some o3) = Inr (Some o4)"
       "Step (Some o4) = Inr (Some o5)" and
    g: "globalBestFitness opt = MaxFloat64" "globalBestFitness o1 = MaxFloat64"
       "globalBestFitness o2 = MaxFloat64" "globalBestFitness o3 = MaxFloat64"
       "globalBestFitness o4 = MaxFloat64" "globalBestFitness o5 = MaxFloat64" and
    w: "WaitMagnitude (options opt) = 1 / 2" "WaitMagnitude (options o1) = 1 / 2"
       "WaitMagnitude (options o2) = 1 / 2" "WaitMagnitude (options o3) = 1 / 2"
       "WaitMagnitude (options o4) = 1 / 2" "WaitMagnitude (options o5) = 1 / 2"
    by (elim exE conjE)
  have t: "turn 1 (o1, 1, 0) = Inr (o2, 2, 1)" "turn 1 (o2, 2, 1) = Inr (o3, 3, 2)"
    "turn 1 (o3, 3, 2) = Inr (o4, 4, 3)" "turn 1 (o4, 4, 3) = Inr (o5, 5, 4)"
    using s g by (simp_all add: turn_def seq_def)
  have b: "bestAfter opt 0 = MaxFloat64" "bestAfter opt (Suc 0) = MaxFloat64"
     "bestAfter opt (Suc (Suc 0)) = MaxFloat64"
     "bestAfter opt (Suc (Suc (Suc 0))) = MaxFloat64"
     "bestAfter opt (Suc (Suc (Suc (Suc 0)))) = MaxFloat64"
    using s g by (simp_all add: bestAfter_def seq_def)
  show ?thesis
    using n s(1) t w b
    by (intro exI [of _ opt] exI [of _ o1] exI [of _ o2] exI [of _ o3] exI [of _ o4]
        exI [of _ o5]) (simp add: seq_def)
qed

theorem StepUntil_stops_exactly_when_witness:
  "\<exists>opt opt'.
     New quarter inOrder 1 (\<lambda>v. 1) [(0, 1)] stallOptions = Inr (Some opt) \<and>
     StepUntil (Some opt) 1 = Some (Inr (5, Some opt')) \<and>
     StepTimes 5 (Some opt) = Inr (Some opt')"
proof -
  from stall_turns obtain opt o1 o2 o3 o4 o5 where
    n: "New quarter inOrder 1 (\<lambda>v. 1) [(0, 1)] stallOptions = Inr (Some opt)" and
    s: "Step (Some opt) = Inr (Some o1)" and
    t1: "turns 1 (Suc 0) (o1, 1, 0) = Inr (o2, 2, 1)" and
    t2: "turns 1 (Suc (Suc 0)) (o1, 1, 0) = Inr (o3, 3, 2)" and
    t3: "turns 1 (Suc (Suc (Suc 0))) (o1, 1, 0) = Inr (o4, 4, 3)" and
    t4: "turns 1 (Suc (Suc (Suc (Suc 0)))) (o1, 1, 0) = Inr (o5, 5, 4)" and
    w: "WaitMagnitude (options o2) = 1 / 2" "WaitMagnitude (options o3) = 1 / 2"
       "WaitMagnitude (options o4) = 1 / 2" "WaitMagnitude (options o5) = 1 / 2"
    by (elim exE conjE)
  have st: "stops (o5, 5, 4)" by (simp add: stops_def w waitedEnough_half)
  have nn: "\<forall>j<Suc (Suc (Suc 0)). \<forall>u. turns \<bar>1\<bar> (Suc j) (o1, 1, 0) = Inr u \<longrightarrow> \<not> stops u"
  proof (intro allI impI)
    fix j u assume j: "j < Suc (Suc (Suc 0))" and u: "turns \<bar>1\<bar> (Suc j) (o1, 1, 0) = Inr u"
    from j consider "j = 0" | "j = Suc 0" | "j = Suc (Suc 0)" by linarith
    then show "\<not> stops u"
    proof cases
      case 1
      with u t1 have "u = (o2, 2, 1)" by simp
      then show ?thesis by (simp add: stops_def w waitedEnough_half)
    next
      case 2
      with u t2 have "u = (o3, 3, 2)" by simp
      then show ?thesis by (simp add: stops_def w waitedEnough_half)
    next
      case 3
      with u t3 have "u = (o4, 4, 3)" by simp
      then show ?thesis by (simp add: stops_def w waitedEnough_half)
    qed
  qed
  have "\<exists>opt1 k s.
         Step (Some opt) = Inr (Some opt1) \<and>
         turns \<bar>1\<bar> (Suc k) (opt1, 1, 0) = Inr (o5, 5, s) \<and>
         stops (o5, 5, s) \<and>
         (\<forall>j<k. \<forall>u. turns \<bar>1\<bar> (Suc j) (opt1, 1, 0) = Inr u \<longrightarrow> \<not> stops u)"
    using s t4 st nn
    by (intro exI [of _ o1] exI [of _ "Suc (Suc (Suc 0))"] exI [of _ 4]) simp
  with StepUntil_stops_exactly_when [of opt 1 5 o5] have
    "StepUntil (Some opt) 1 = Some (Inr (5, Some o5))" "StepTimes 5 (Some opt) = Inr (Some o5)"
    by blast+
  with n show ?thesis by blast
qed

text \<open>
  The claim counts the stagnation after each step, the first one included. In the run
  below no step improves the global best, so by that count the stagnation is 4 after 4
  steps and the test holds there (\<open>log10 4 > 1/2\<close> and \<open>log10 4 - log10 4 < 1/2\<close>); the
  code does not compare after its first step, counts 3, and returns after 5 steps.
\<close>

theorem first_step_not_counted_counterexample:
  "\<exists>opt opt'.
     New quarter inOrder 1 (\<lambda>v. 1) [(0, 1)] stallOptions = Inr (Some opt) \<and>
     StepUntil (Some opt) 1 = Some (Inr (5, Some opt')) \<and>
     claimedSince 1 opt 4 = 4 \<and>
     waitedEnough (WaitMagnitude (options opt)) 4 (claimedSince 1 opt 4)"
proof -
  from stall_turns obtain opt o1 o2 o3 o4 o5 where
    n: "New quarter inOrder 1 (\<lambda>v. 1) [(0, 1)] stallOptions = Inr (Some opt)" and
    s: "Step (Some opt) = Inr (Some o1)" and
    t1: "turns 1 (Suc 0) (o1, 1, 0) = Inr (o2, 2, 1)" and
    t2: "turns 1 (Suc (Suc 0)) (o1, 1, 0) = Inr (o3, 3, 2)" and
    t3: "turns 1 (Suc (Suc (Suc 0))) (o1, 1, 0) = Inr (o4, 4, 3)" and
    t4: "turns 1 (Suc (Suc (Suc (Suc 0)))) (o1, 1, 0) = Inr (o5, 5, 4)" and
    w: "WaitMagnitude (options opt) = 1 / 2"
       "WaitMagnitude (options o2) = 1 / 2" "WaitMagnitude (options o3) = 1 / 2"
       "WaitMagnitude (options o4) = 1 / 2" "WaitMagnitude (options o5) = 1 / 2" and
    b: "bestAfter opt 0 = MaxFloat64" "bestAfter opt (Suc 0) = MaxFloat64"
       "bestAfter opt (Suc (Suc 0)) = MaxFloat64"
       "bestAfter opt (Suc (Suc (Suc 0))) = MaxFloat64"
       "bestAfter opt (Suc (Suc (Suc (Suc 0)))) = MaxFloat64"
    by (elim exE conjE)
  have st: "stops (o5, 5, 4)" by (simp add: stops_def w waitedEnough_half)
  have nn: "\<forall>j<Suc (Suc (Suc 0)). \<forall>u. turns \<bar>1\<bar> (Suc j) (o1, 1, 0) = Inr u \<longrightarrow> \<not> stops u"
  proof (intro allI impI)
    fix j u assume j: "j < Suc (Suc (Suc 0))" and u: "turns \<bar>1\<bar> (Suc j) (o1, 1, 0) = Inr u"
    from j consider "j = 0" | "j = Suc 0" | "j = Suc (Suc 0)" by linarith
    then show "\<not> stops u"
    proof cases
      case 1
      with u t1 have "u = (o2, 2, 1)" by simp
      then show ?thesis by (simp add: stops_def w waitedEnough_half)
    next
      case 2
      with u t2 have "u = (o3, 3, 2)" by simp
      then show ?thesis by (simp add: stops_def w waitedEnough_half)
    next
      case 3
      with u t3 have "u = (o4, 4, 3)" by simp
      then show ?thesis by (simp add: stops_def w waitedEnough_half)
    qed
  qed
  have "\<exists>opt1 k s.
         Step (Some opt) = Inr (Some opt1) \<and>
         turns \<bar>1\<bar> (Suc k) (opt1, 1, 0) = Inr (o5, 5, s) \<and>
         stops (o5, 5, s) \<and>
         (\<forall>j<k. \<forall>u. turns \<bar>1\<bar> (Suc j) (opt1, 1, 0) = Inr u \<longrightarrow> \<not> stops u)"
    using s t4 st nn
    by (intro exI [of _ o1] exI [of _ "Suc (Suc (Suc 0))"] exI [of _ 4]) simp
  then have r: "StepUntil (Some opt) 1 = Some (Inr (5, Some o5))"
    by (simp only: StepUntil_iff)
  have c: "claimedSince 1 opt 4 = 4"
    using b by (simp add: eval_nat_numeral)
  have "waitedEnough (WaitMagnitude (options opt)) 4 4"
    by (simp add: w waitedEnough_half)
  with n r c show ?thesis
    by (intro exI [of _ opt] exI [of _ o5]) simp
qed

end
